theory Spec2Isabelle
  imports Main "HOL-Library.Char_ord" "HOL-Library.List_Lexorder"
begin

chapter \<open>Bitbucket Pipelines Local Runner: pipeline execution engine\<close>

text \<open>
  A shallow embedding of the TypeScript sources of the runner: the YAML loader
  (\<^verbatim>\<open>core/yaml-parser.ts\<close>), the scheduler and selector (\<^verbatim>\<open>core/runner.ts\<close>), the
  environment, cache and artifact managers.  Every definition is named after the
  source function it follows.  Exceptions are values of a sum type, promises are
  values that record when and how they settle, JavaScript objects are association
  lists in property order.
\<close>

section \<open>Data model (\<^verbatim>\<open>interfaces/index.ts\<close>)\<close>

text \<open>
  A JavaScript value as the loader and the environment manager meet it: what a YAML
  document parses to, and \<^verbatim>\<open>undefined\<close>.  An object is the list of its own
  properties in \<^verbatim>\<open>Object.entries\<close> order.  Numbers are the integers.
\<close>

datatype jsval =
  Undefined | Null | Bool bool | Num int | Str string
| Arr "jsval list" | Obj "(string \<times> jsval) list"

text \<open>A \<^verbatim>\<open>Record<string, string>\<close>.  The declared value type is \<^verbatim>\<open>string\<close>; what a
  run holds there is any value.\<close>

type_synonym env = "(string \<times> jsval) list"

text \<open>
  The typed interfaces the runner works on.  An optional field is an \<open>option\<close>.
  Fields that no modelled function reads (\<^verbatim>\<open>image\<close>, \<^verbatim>\<open>size\<close>, \<^verbatim>\<open>maxTime\<close>,
  \<^verbatim>\<open>trigger\<close>, \<^verbatim>\<open>condition\<close>, \<^verbatim>\<open>deployment\<close>) are left out of \<open>Step\<close>.
\<close>

record ArtifactConfig =
  paths :: "string list"
  download :: "bool option"

record Step =
  step_name :: "string option"
  step_script :: "string list"
  step_caches :: "string list option"
  step_artifacts :: "ArtifactConfig option"
  step_services :: "string list option"
  step_afterScript :: "string list option"
  step_variables :: "env option"

record ParallelSteps =
  failFast :: "bool option"
  steps :: "Step list"

text \<open>
  \<^verbatim>\<open>type Pipeline = (Step | ParallelSteps)[]\<close>.  The runner tells the two apart with
  \<^verbatim>\<open>isStep\<close> (\<^verbatim>\<open>item.script && !item.parallel\<close>) and \<^verbatim>\<open>isParallelSteps\<close>
  (\<^verbatim>\<open>item.parallel\<close>); on the values of the two interfaces that is the tag.
\<close>

datatype PipelineItem = StepItem Step | ParallelItem ParallelSteps

type_synonym Pipeline = "PipelineItem list"

text \<open>
  A \<^verbatim>\<open>Record<string, Pipeline>\<close> is a plain object: the list holds its own
  properties in the order in which they were created; for a loaded document the
  names that are not integer-like are created in document order.  \<^verbatim>\<open>Object.keys\<close>
  and a read \<^verbatim>\<open>record[key]\<close> are modelled where the runner uses them.
\<close>

record Pipelines =
  default :: "Pipeline option"
  branches :: "(string \<times> Pipeline) list option"
  tags :: "(string \<times> Pipeline) list option"
  pullrequests :: "(string \<times> Pipeline) list option"
  custom :: "(string \<times> Pipeline) list option"

record PipelineConfig =
  pipelines :: Pipelines

record CLIOptions =
  opt_pipeline :: "string option"
  opt_branch :: "string option"
  opt_custom :: "string option"
  opt_dryRun :: "bool option"
  opt_envFile :: "string option"

datatype ErrorType =
  YAML_PARSE_ERROR | DOCKER_ERROR | CONTAINER_ERROR | NETWORK_ERROR | FILE_SYSTEM_ERROR
| VALIDATION_ERROR | TIMEOUT_ERROR | USER_CANCELLED

text \<open>A thrown value: a \<^verbatim>\<open>PipelineError\<close> with its type and message, or a
  \<^verbatim>\<open>TypeError\<close> of the language (a property read on \<^verbatim>\<open>null\<close>).\<close>

datatype error = PipelineError ErrorType string | TypeError

text \<open>\<^verbatim>\<open>a || b\<close> on an optional string: the empty string is falsy.\<close>

definition orElse :: "string option \<Rightarrow> string \<Rightarrow> string" where
  "orElse a b = (case a of None \<Rightarrow> b | Some s \<Rightarrow> if s = [] then b else s)"

section \<open>Environment manager\<close>

text \<open>\<^verbatim>\<open>obj[key] = value\<close>: an existing property keeps its place, a new one is added
  at the end.\<close>

fun setProp :: "string \<Rightarrow> jsval \<Rightarrow> env \<Rightarrow> env" where
  "setProp key v [] = [(key, v)]"
| "setProp key v ((k, w) # rest) =
     (if k = key then (key, v) # rest else (k, w) # setProp key v rest)"

text \<open>
  \<^verbatim>\<open>
  mergeEnvironments(...envs: Record<string, string>[]): Record<string, string> {
    const merged: Record<string, string> = {};
    envs.forEach(env => {
      Object.entries(env).forEach(([key, value]) => {
        if (value !== undefined && value !== null && value !== '') {
          merged[key] = value;
        }
      });
    });
    return merged;
  }
  \<close>
\<close>

definition mergeEntry :: "env \<Rightarrow> string \<times> jsval \<Rightarrow> env" where
  "mergeEntry merged entry =
     (case entry of (key, v) \<Rightarrow>
        if v \<noteq> Undefined \<and> v \<noteq> Null \<and> v \<noteq> Str [] then setProp key v merged else merged)"

definition mergeEnvironments :: "env list \<Rightarrow> env" where
  "mergeEnvironments envs = foldl (\<lambda>merged e. foldl mergeEntry merged e) [] envs"

text \<open>A value that \<^verbatim>\<open>mergeEnvironments\<close> skips.\<close>

definition isSkipped :: "jsval \<Rightarrow> bool" where
  "isSkipped v = (v = Undefined \<or> v = Null \<or> v = Str [])"

text \<open>The entries of an object that \<^verbatim>\<open>mergeEnvironments\<close> does not skip.\<close>

definition nonEmptyEntries :: "env \<Rightarrow> env" where
  "nonEmptyEntries e = filter (\<lambda>entry. \<not> isSkipped (snd entry)) e"

record EnvironmentConfig =
  bitbucketVariables :: "env option"

text \<open>\<^verbatim>\<open>path.join(a, b)\<close> for a directory \<open>a\<close> without a trailing separator and a
  plain file name \<open>b\<close>.\<close>

definition pathJoin :: "string \<Rightarrow> string \<Rightarrow> string" where
  "pathJoin a b = a @ ''/'' @ b"

text \<open>
  The array \<^verbatim>\<open>environments\<close> that \<^verbatim>\<open>loadEnvironment\<close> builds.  \<open>processEnv\<close> is
  \<^verbatim>\<open>process.env\<close> as the merge reads it (the array holds the object itself, and
  \<^verbatim>\<open>dotenv.config\<close> adds to it the variables of a file that it does not have
  yet), \<open>loadEnvFile path\<close> is what the private
  method of that name returns for a path (\<open>None\<close> for \<^verbatim>\<open>null\<close>: file absent or
  not parsed), \<open>cwd\<close> is \<^verbatim>\<open>process.cwd()\<close>.  \<^verbatim>\<open>if (envFile)\<close> is false for a missing
  option and for the empty string.
\<close>

definition loadEnvironmentSources ::
  "EnvironmentConfig \<Rightarrow> env \<Rightarrow> (string \<Rightarrow> env option) \<Rightarrow> string \<Rightarrow> string option \<Rightarrow> env list" where
  "loadEnvironmentSources config processEnv loadEnvFile cwd envFile =
     (let environments = [processEnv];
          environments = (case loadEnvFile (pathJoin cwd ''.env'') of
             Some defaultEnv \<Rightarrow> environments @ [defaultEnv] | None \<Rightarrow> environments);
          environments = (case envFile of
             None \<Rightarrow> environments
           | Some f \<Rightarrow> if f = [] then environments else
               (case loadEnvFile f of
                  Some customEnv \<Rightarrow> environments @ [customEnv] | None \<Rightarrow> environments));
          environments = (case loadEnvFile (pathJoin cwd ''.env.pipelines'') of
             Some pipelineEnv \<Rightarrow> environments @ [pipelineEnv] | None \<Rightarrow> environments);
          environments = (case bitbucketVariables config of
             Some vars \<Rightarrow> environments @ [vars] | None \<Rightarrow> environments)
      in environments)"

definition loadEnvironment ::
  "EnvironmentConfig \<Rightarrow> env \<Rightarrow> (string \<Rightarrow> env option) \<Rightarrow> string \<Rightarrow> string option \<Rightarrow> env" where
  "loadEnvironment config processEnv loadEnvFile cwd envFile =
     mergeEnvironments (loadEnvironmentSources config processEnv loadEnvFile cwd envFile)"

record PipelineContext =
  branch :: string
  commit :: string
  buildNumber :: nat
  repoName :: string
  workspace :: string
  repoSlug :: string
  repoUuid :: string
  stepName :: "string option"

text \<open>What \<^verbatim>\<open>getBitbucketVariables\<close> draws from \<^verbatim>\<open>Math.random\<close> and the clock: the
  three UUIDs, the execution id and the ISO-8601 time.\<close>

record Generated =
  pipelineUuid :: string
  stepUuid :: string
  triggererUuid :: string
  executionId :: string
  executionTime :: string

text \<open>\<^verbatim>\<open>Number.prototype.toString\<close> on a natural number: its decimal digits.\<close>

definition digitChar :: "nat \<Rightarrow> char" where
  "digitChar d = ''0123456789'' ! d"

fun toString :: "nat \<Rightarrow> string" where
  "toString n = (if n < 10 then [digitChar n]
                 else toString (n div 10) @ [digitChar (n mod 10)])"

declare toString.simps [simp del]

text \<open>The object literal \<^verbatim>\<open>variables\<close> of \<^verbatim>\<open>getBitbucketVariables\<close>: the reserved
  system variables.\<close>

definition systemVariables :: "PipelineContext \<Rightarrow> Generated \<Rightarrow> env" where
  "systemVariables context gen =
    [(''BITBUCKET_WORKSPACE'', Str (workspace context)),
     (''BITBUCKET_REPO_SLUG'', Str (repoSlug context)),
     (''BITBUCKET_REPO_UUID'', Str (repoUuid context)),
     (''BITBUCKET_REPO_FULL_NAME'', Str (workspace context @ ''/'' @ repoSlug context)),
     (''BITBUCKET_BUILD_NUMBER'', Str (toString (buildNumber context))),
     (''BITBUCKET_COMMIT'', Str (commit context)),
     (''BITBUCKET_BRANCH'', Str (branch context)),
     (''BITBUCKET_PIPELINE_UUID'', Str (''{'' @ pipelineUuid gen @ ''}'')),
     (''BITBUCKET_STEP_UUID'',
        Str (case stepName context of
               None \<Rightarrow> []
             | Some n \<Rightarrow> if n = [] then [] else ''{'' @ stepUuid gen @ ''}'')),
     (''BITBUCKET_STEP_TRIGGERER_UUID'', Str (''{'' @ triggererUuid gen @ ''}'')),
     (''BITBUCKET_TAG'', Str []),
     (''BITBUCKET_BOOKMARK'', Str []),
     (''BITBUCKET_PR_ID'', Str []),
     (''BITBUCKET_PR_DESTINATION_BRANCH'', Str []),
     (''BITBUCKET_DEPLOYMENT_ENVIRONMENT'', Str []),
     (''BITBUCKET_CLONE_DIR'', Str ''/opt/atlassian/pipelines/agent/build''),
     (''BITBUCKET_PARALLEL_STEP'', Str ''false''),
     (''BITBUCKET_PARALLEL_STEP_COUNT'', Str ''1''),
     (''BITBUCKET_PIPELINES_LOCAL'', Str ''true''),
     (''BBPL_EXECUTION_ID'', Str (executionId gen)),
     (''BBPL_EXECUTION_TIME'', Str (executionTime gen))]"

text \<open>\<^verbatim>\<open>Object.assign(target, source)\<close> for one source: every own property of the
  source is assigned to the target, in order.\<close>

definition objectAssign :: "env \<Rightarrow> env \<Rightarrow> env" where
  "objectAssign target source = foldl (\<lambda>t entry. setProp (fst entry) (snd entry) t) target source"

text \<open>
  \<^verbatim>\<open>
  if (this.config.bitbucketVariables) {
    Object.assign(variables, this.config.bitbucketVariables, variables);
  }
  return variables;
  \<close>
  The target and the last source are the same object: the configured variables
  are assigned first, and the second source is then the target as it has become.
\<close>

definition getBitbucketVariables :: "EnvironmentConfig \<Rightarrow> PipelineContext \<Rightarrow> Generated \<Rightarrow> env" where
  "getBitbucketVariables config context gen =
     (let variables = systemVariables context gen in
      case bitbucketVariables config of
        None \<Rightarrow> variables
      | Some vars \<Rightarrow>
          (let variables = objectAssign variables vars in objectAssign variables variables))"

section \<open>Runner: execution context and the environment a step runs in\<close>

record LocalRunnerConfig =
  docker_networkName :: "string option"
  cache_path :: string
  artifacts_baseDir :: string
  environmentConfig :: EnvironmentConfig

record ExecutionContext =
  workspaceDir :: string
  artifactsDir :: string
  cacheDir :: string
  environment :: env
  network :: string

text \<open>\<^verbatim>\<open>path.basename\<close> of a path without a trailing separator.\<close>

definition basename :: "string \<Rightarrow> string" where
  "basename p = rev (takeWhile (\<lambda>c. c \<noteq> CHR ''/'') (rev p))"

text \<open>The \<^verbatim>\<open>pipelineContext\<close> literal of \<^verbatim>\<open>createExecutionContext\<close>; \<open>now\<close> is
  \<^verbatim>\<open>Date.now()\<close>.\<close>

definition localPipelineContext :: "string \<Rightarrow> nat \<Rightarrow> CLIOptions \<Rightarrow> PipelineContext" where
  "localPipelineContext dir now options =
     \<lparr>branch = orElse (opt_branch options) ''local'',
      commit = ''local-commit'',
      buildNumber = now,
      repoName = basename dir,
      workspace = ''local-workspace'',
      repoSlug = basename dir,
      repoUuid = ''{00000000-0000-0000-0000-000000000000}'',
      stepName = None\<rparr>"

text \<open>
  \<^verbatim>\<open>createExecutionContext\<close>.  The two \<^verbatim>\<open>fs.mkdir\<close> calls are taken to succeed; the
  \<^verbatim>\<open>_config\<close> argument is not read.
  \<^verbatim>\<open>
  const environment = await this.environmentManager.loadEnvironment(options.envFile);
  const bitbucketVars = this.environmentManager.getBitbucketVariables(pipelineContext);
  const mergedEnv = this.environmentManager.mergeEnvironments(environment, bitbucketVars);
  \<close>
\<close>

definition createExecutionContext ::
  "LocalRunnerConfig \<Rightarrow> env \<Rightarrow> (string \<Rightarrow> env option) \<Rightarrow> string \<Rightarrow> nat \<Rightarrow> Generated
     \<Rightarrow> CLIOptions \<Rightarrow> ExecutionContext" where
  "createExecutionContext config processEnv loadEnvFile cwd now gen options =
     (let pipelineContext = localPipelineContext cwd now options;
          loaded = loadEnvironment (environmentConfig config) processEnv loadEnvFile cwd
                     (opt_envFile options);
          bitbucketVars = getBitbucketVariables (environmentConfig config) pipelineContext gen;
          mergedEnv = mergeEnvironments [loaded, bitbucketVars]
      in \<lparr>workspaceDir = cwd,
          artifactsDir = pathJoin (artifacts_baseDir config) ''current'',
          cacheDir = cache_path config,
          environment = mergedEnv,
          network = orElse (docker_networkName config) ''bbpl-network''\<rparr>)"

text \<open>
  \<^verbatim>\<open>runStepContainer(step, context)\<close> builds the container configuration with
  \<^verbatim>\<open>environment: context.environment\<close>; \<^verbatim>\<open>step.variables\<close> is read nowhere in
  the docker manager or the runner.
\<close>

definition stepContainerEnvironment :: "Step \<Rightarrow> ExecutionContext \<Rightarrow> env" where
  "stepContainerEnvironment step context = environment context"

text \<open>The environment of the container of a step of a run: \<^verbatim>\<open>run\<close> creates one
  context and passes it to every step.\<close>

definition stepEnvironment ::
  "LocalRunnerConfig \<Rightarrow> env \<Rightarrow> (string \<Rightarrow> env option) \<Rightarrow> string \<Rightarrow> nat \<Rightarrow> Generated
     \<Rightarrow> CLIOptions \<Rightarrow> Step \<Rightarrow> env" where
  "stepEnvironment config processEnv loadEnvFile cwd now gen options step =
     stepContainerEnvironment step
       (createExecutionContext config processEnv loadEnvFile cwd now gen options)"

text \<open>
  The sources of the environment in the order the code merges them: the array of
  \<^verbatim>\<open>loadEnvironment\<close>, then the system variables.
\<close>

definition environmentSources ::
  "LocalRunnerConfig \<Rightarrow> env \<Rightarrow> (string \<Rightarrow> env option) \<Rightarrow> string \<Rightarrow> nat \<Rightarrow> Generated
     \<Rightarrow> CLIOptions \<Rightarrow> env list" where
  "environmentSources config processEnv loadEnvFile cwd now gen options =
     loadEnvironmentSources (environmentConfig config) processEnv loadEnvFile cwd (opt_envFile options)
       @ [systemVariables (localPipelineContext cwd now options) gen]"

text \<open>The keys of the literal of \<^verbatim>\<open>getBitbucketVariables\<close>: the reserved names.\<close>

definition reservedNames :: "string list" where
  "reservedNames =
    [''BITBUCKET_WORKSPACE'', ''BITBUCKET_REPO_SLUG'', ''BITBUCKET_REPO_UUID'',
     ''BITBUCKET_REPO_FULL_NAME'', ''BITBUCKET_BUILD_NUMBER'', ''BITBUCKET_COMMIT'',
     ''BITBUCKET_BRANCH'', ''BITBUCKET_PIPELINE_UUID'', ''BITBUCKET_STEP_UUID'',
     ''BITBUCKET_STEP_TRIGGERER_UUID'', ''BITBUCKET_TAG'', ''BITBUCKET_BOOKMARK'',
     ''BITBUCKET_PR_ID'', ''BITBUCKET_PR_DESTINATION_BRANCH'',
     ''BITBUCKET_DEPLOYMENT_ENVIRONMENT'', ''BITBUCKET_CLONE_DIR'', ''BITBUCKET_PARALLEL_STEP'',
     ''BITBUCKET_PARALLEL_STEP_COUNT'', ''BITBUCKET_PIPELINES_LOCAL'', ''BBPL_EXECUTION_ID'',
     ''BBPL_EXECUTION_TIME'']"

text \<open>The runner configuration's default variables bind a reserved name.\<close>

definition overridesReserved :: "EnvironmentConfig \<Rightarrow> string \<Rightarrow> bool" where
  "overridesReserved config k =
     (k \<in> set reservedNames \<and>
      (case bitbucketVariables config of None \<Rightarrow> False | Some vars \<Rightarrow> k \<in> fst ` set vars))"

text \<open>
  The specification's reading: the right-biased merge of a list of sources (a
  later source wins every key it binds), and the seven sources of its section 4.4,
  the step-local variables last.
\<close>

definition rightBiasedMerge :: "env list \<Rightarrow> string \<Rightarrow> jsval option" where
  "rightBiasedMerge envs = foldl (\<lambda>m e. m ++ map_of e) Map.empty envs"

definition specSources ::
  "LocalRunnerConfig \<Rightarrow> env \<Rightarrow> (string \<Rightarrow> env option) \<Rightarrow> string \<Rightarrow> nat \<Rightarrow> Generated
     \<Rightarrow> CLIOptions \<Rightarrow> Step \<Rightarrow> env list" where
  "specSources config processEnv loadEnvFile cwd now gen options step =
     environmentSources config processEnv loadEnvFile cwd now gen options
       @ (case step_variables step of None \<Rightarrow> [] | Some vars \<Rightarrow> [vars])"

subsection \<open>A concrete run\<close>

text \<open>
  A project directory \<^verbatim>\<open>/w/proj\<close> with a \<^verbatim>\<open>.env\<close> file, a runner configuration
  with one default variable, and a step with one step-local variable.  The process
  environment is the one the merge reads: \<^verbatim>\<open>dotenv.config\<close> has added to it the
  variable of the file that it did not have.
\<close>

definition exampleConfig :: LocalRunnerConfig where
  "exampleConfig =
     \<lparr>docker_networkName = None, cache_path = ''/home/u/.bbpl/cache'',
      artifacts_baseDir = ''/home/u/.bbpl/artifacts'',
      environmentConfig = \<lparr>bitbucketVariables = Some [(''DEPLOY_TARGET'', Str ''staging'')]\<rparr>\<rparr>"

definition exampleProcessEnv :: env where
  "exampleProcessEnv =
     [(''APP_MODE'', Str ''dev''), (''PATH'', Str ''/usr/bin''), (''BITBUCKET_TAG'', Str ''v1.0'')]"

definition exampleDotEnv :: env where
  "exampleDotEnv = [(''BITBUCKET_TAG'', Str ''v1.0''), (''APP_MODE'', Str ''ci''), (''PATH'', Str [])]"

definition exampleFiles :: "string \<Rightarrow> env option" where
  "exampleFiles p = (if p = ''/w/proj/.env'' then Some exampleDotEnv else None)"

definition exampleGenerated :: Generated where
  "exampleGenerated =
     \<lparr>pipelineUuid = ''p'', stepUuid = ''s'', triggererUuid = ''t'',
      executionId = ''1700000000000-abc123'', executionTime = ''2023-11-14T22:13:20.000Z''\<rparr>"

definition exampleOptions :: CLIOptions where
  "exampleOptions =
     \<lparr>opt_pipeline = None, opt_branch = None, opt_custom = None, opt_dryRun = None,
      opt_envFile = None\<rparr>"

definition exampleStep :: Step where
  "exampleStep =
     \<lparr>step_name = Some ''build'', step_script = [''make''], step_caches = None,
      step_artifacts = None, step_services = None, step_afterScript = None,
      step_variables = Some [(''FOO'', Str ''bar'')]\<rparr>"

section \<open>Runner: \<^verbatim>\<open>listPipelines\<close> and \<^verbatim>\<open>selectPipeline\<close>\<close>

text \<open>
  \<^verbatim>\<open>listPipelines\<close>.  The argument is the outcome of \<^verbatim>\<open>loadPipelineConfig\<close>: the
  \<^verbatim>\<open>catch\<close> block logs an error and returns the empty array.  A pipeline is an
  array, which is truthy, so \<^verbatim>\<open>if (pipelineConfig.pipelines.default)\<close> tests
  presence.
  \<^verbatim>\<open>
  if (pipelineConfig.pipelines.default) { pipelines.push('default'); }
  if (pipelineConfig.pipelines.branches) {
    Object.keys(pipelineConfig.pipelines.branches).forEach(branch => {
      pipelines.push(`branches/${branch}`); }); }
  if (pipelineConfig.pipelines.custom) { ... pipelines.push(`custom/${custom}`) ... }
  if (pipelineConfig.pipelines.tags) { ... pipelines.push(`tags/${tag}`) ... }
  return pipelines;
  \<close>
\<close>

text \<open>
  \<^verbatim>\<open>Object.keys\<close> of a plain object lists the own property names that are array
  indices first, in ascending numeric order, and then the other names in the order
  of their creation.  An array index is the canonical decimal form of an integer
  from 0 to 4294967294.
\<close>

definition isDigit :: "char \<Rightarrow> bool" where
  "isDigit c = (48 \<le> (of_char c :: nat) \<and> (of_char c :: nat) \<le> 57)"

definition parseNat :: "string \<Rightarrow> nat" where
  "parseNat s = foldl (\<lambda>n c. 10 * n + ((of_char c :: nat) - 48)) 0 s"

definition isArrayIndex :: "string \<Rightarrow> bool" where
  "isArrayIndex s =
     (s \<noteq> [] \<and> list_all isDigit s \<and> (s = ''0'' \<or> take 1 s \<noteq> ''0'')
      \<and> parseNat s < 4294967295)"

definition objectKeys :: "(string \<times> 'a) list \<Rightarrow> string list" where
  "objectKeys r =
     sort_key parseNat (filter isArrayIndex (map fst r))
     @ filter (\<lambda>key. \<not> isArrayIndex key) (map fst r)"

definition pushKeys :: "string \<Rightarrow> (string \<times> Pipeline) list option \<Rightarrow> string list \<Rightarrow> string list" where
  "pushKeys prefix record acc =
     (case record of
        None \<Rightarrow> acc
      | Some r \<Rightarrow> foldl (\<lambda>a key. a @ [prefix @ key]) acc (objectKeys r))"

definition listPipelines :: "error + PipelineConfig \<Rightarrow> string list" where
  "listPipelines loaded =
     (case loaded of
        Inl e \<Rightarrow> []
      | Inr pipelineConfig \<Rightarrow>
          (let acc = [];
               acc = (case default (pipelines pipelineConfig) of
                        Some p \<Rightarrow> acc @ [''default''] | None \<Rightarrow> acc);
               acc = pushKeys ''branches/'' (branches (pipelines pipelineConfig)) acc;
               acc = pushKeys ''custom/'' (custom (pipelines pipelineConfig)) acc;
               acc = pushKeys ''tags/'' (tags (pipelines pipelineConfig)) acc
           in acc))"

text \<open>
  The names of the members of \<^verbatim>\<open>Object.prototype\<close>.  A plain object inherits them:
  a read \<^verbatim>\<open>record[key]\<close> of such a name that is not an own property gives the
  inherited member, a function (for \<^verbatim>\<open>__proto__\<close> the prototype object), which is
  truthy.
\<close>

definition objectPrototypeNames :: "string list" where
  "objectPrototypeNames =
     [''constructor'', ''hasOwnProperty'', ''isPrototypeOf'', ''propertyIsEnumerable'',
      ''toLocaleString'', ''toString'', ''valueOf'', ''__proto__'', ''__defineGetter__'',
      ''__defineSetter__'', ''__lookupGetter__'', ''__lookupSetter__'']"

text \<open>What \<^verbatim>\<open>selectPipeline\<close> returns: a pipeline of the configuration, or the
  member of \<^verbatim>\<open>Object.prototype\<close> of the given name.\<close>

datatype selected = SelectedPipeline Pipeline | InheritedMember string

text \<open>The own property \<open>key\<close> of an optional record of pipelines.\<close>

definition ownPipeline :: "(string \<times> Pipeline) list option \<Rightarrow> string \<Rightarrow> Pipeline option" where
  "ownPipeline record key = (case record of None \<Rightarrow> None | Some r \<Rightarrow> map_of r key)"

text \<open>\<^verbatim>\<open>record && record[key]\<close> for an optional record of pipelines: \<open>None\<close> when
  the value is falsy (no record, or \<^verbatim>\<open>undefined\<close>).\<close>

definition lookupPipeline :: "(string \<times> Pipeline) list option \<Rightarrow> string \<Rightarrow> selected option" where
  "lookupPipeline record key =
     (case record of
        None \<Rightarrow> None
      | Some r \<Rightarrow>
          (case map_of r key of
             Some pipeline \<Rightarrow> Some (SelectedPipeline pipeline)
           | None \<Rightarrow> if key \<in> set objectPrototypeNames then Some (InheritedMember key) else None))"

text \<open>\<^verbatim>\<open>if (options.custom)\<close>: an option is set when it is present and not the
  empty string.\<close>

definition isSet :: "string option \<Rightarrow> bool" where
  "isSet a = (case a of None \<Rightarrow> False | Some s \<Rightarrow> s \<noteq> [])"

text \<open>
  \<^verbatim>\<open>selectPipeline(config, options)\<close>; a thrown \<^verbatim>\<open>PipelineError\<close> is the left
  summand.  The second test of each looked-up pipeline (\<^verbatim>\<open>if (!pipeline)\<close>)
  repeats the first and cannot fire.  The records are the plain objects that
  \<^verbatim>\<open>transformPipelines\<close> builds (\<^verbatim>\<open>result.custom = {}\<close>), and the fixed names
  \<^verbatim>\<open>default\<close>, \<^verbatim>\<open>custom\<close> and \<^verbatim>\<open>branches\<close> are no members of
  \<^verbatim>\<open>Object.prototype\<close>.
\<close>

definition selectPipeline :: "PipelineConfig \<Rightarrow> CLIOptions \<Rightarrow> error + selected" where
  "selectPipeline config options =
     (let customName = orElse (opt_custom options) [];
          branchName = orElse (opt_branch options) [];
          pipelineName = orElse (opt_pipeline options) []
      in
      if customName \<noteq> [] then
        (case lookupPipeline (custom (pipelines config)) customName of
           None \<Rightarrow> Inl (PipelineError VALIDATION_ERROR (''Custom pipeline not found: '' @ customName))
         | Some pipeline \<Rightarrow> Inr pipeline)
      else if branchName \<noteq> [] then
        (case lookupPipeline (branches (pipelines config)) branchName of
           None \<Rightarrow>
             (case default (pipelines config) of
                None \<Rightarrow> Inl (PipelineError VALIDATION_ERROR
                          (''No pipeline found for branch '' @ branchName @ '' and no default pipeline''))
              | Some d \<Rightarrow> Inr (SelectedPipeline d))
         | Some pipeline \<Rightarrow> Inr pipeline)
      else if pipelineName \<noteq> [] then
        (if pipelineName = ''default'' then
           (case default (pipelines config) of
              None \<Rightarrow> Inl (PipelineError VALIDATION_ERROR ''Default pipeline not found'')
            | Some d \<Rightarrow> Inr (SelectedPipeline d))
         else Inl (PipelineError VALIDATION_ERROR (''Unknown pipeline: '' @ pipelineName)))
      else
        (case default (pipelines config) of
           None \<Rightarrow> Inl (PipelineError VALIDATION_ERROR ''No default pipeline found'')
         | Some d \<Rightarrow> Inr (SelectedPipeline d)))"

text \<open>The selection failed with a \<^verbatim>\<open>PipelineError\<close>.\<close>

definition isSelectionError :: "error + selected \<Rightarrow> bool" where
  "isSelectionError r = (case r of Inl (PipelineError t msg) \<Rightarrow> True | _ \<Rightarrow> False)"

subsection \<open>A concrete document\<close>

definition echoStep :: "string \<Rightarrow> Step" where
  "echoStep line =
     \<lparr>step_name = None, step_script = [line], step_caches = None, step_artifacts = None,
      step_services = None, step_afterScript = None, step_variables = None\<rparr>"

text \<open>The document of scenario S6 (a custom pipeline \<^verbatim>\<open>release\<close> and a default),
  with two branch pipelines and a tag pipeline added.\<close>

definition exampleDocument :: PipelineConfig where
  "exampleDocument =
     \<lparr>pipelines =
        \<lparr>default = Some [StepItem (echoStep ''echo default'')],
         branches = Some [(''main'', [StepItem (echoStep ''echo main'')]),
                          (''develop'', [StepItem (echoStep ''echo develop'')])],
         tags = Some [(''v*'', [StepItem (echoStep ''echo tag'')])],
         pullrequests = None,
         custom = Some [(''release'', [StepItem (echoStep ''echo release'')])]\<rparr>\<rparr>"

definition selection :: "string option \<Rightarrow> string option \<Rightarrow> string option \<Rightarrow> CLIOptions" where
  "selection c b p =
     \<lparr>opt_pipeline = p, opt_branch = b, opt_custom = c, opt_dryRun = None, opt_envFile = None\<rparr>"

text \<open>The same document without a default pipeline.\<close>

definition exampleDocumentNoDefault :: PipelineConfig where
  "exampleDocumentNoDefault =
     \<lparr>pipelines =
        \<lparr>default = None,
         branches = Some [(''main'', [StepItem (echoStep ''echo main'')]),
                          (''develop'', [StepItem (echoStep ''echo develop'')])],
         tags = Some [(''v*'', [StepItem (echoStep ''echo tag'')])],
         pullrequests = None,
         custom = Some [(''release'', [StepItem (echoStep ''echo release'')])]\<rparr>\<rparr>"

text \<open>A document whose branch names are \<^verbatim>\<open>main\<close>, \<^verbatim>\<open>10\<close> and \<^verbatim>\<open>2\<close>, in this
  order.\<close>

definition numberedBranchesDocument :: PipelineConfig where
  "numberedBranchesDocument =
     \<lparr>pipelines =
        \<lparr>default = None,
         branches = Some [(''main'', [StepItem (echoStep ''echo main'')]),
                          (''10'', [StepItem (echoStep ''echo ten'')]),
                          (''2'', [StepItem (echoStep ''echo two'')])],
         tags = None, pullrequests = None, custom = None\<rparr>\<rparr>"

section \<open>Document loader (\<^verbatim>\<open>core/yaml-parser.ts\<close>)\<close>

text \<open>The truthiness of a value: what \<^verbatim>\<open>!v\<close>, \<^verbatim>\<open>v ? a : b\<close> and \<^verbatim>\<open>v || w\<close> test.\<close>

fun truthy :: "jsval \<Rightarrow> bool" where
  "truthy Undefined = False"
| "truthy Null = False"
| "truthy (Bool b) = b"
| "truthy (Num n) = (n \<noteq> 0)"
| "truthy (Str s) = (s \<noteq> [])"
| "truthy (Arr xs) = True"
| "truthy (Obj es) = True"

text \<open>\<^verbatim>\<open>a || b\<close>; both operands are property reads here, so evaluating \<open>b\<close> early
  changes nothing.\<close>

definition jsOr :: "jsval \<Rightarrow> jsval \<Rightarrow> jsval" where
  "jsOr a b = (if truthy a then a else b)"

text \<open>
  \<^verbatim>\<open>v.key\<close> and \<^verbatim>\<open>v['key']\<close> on a value other than \<^verbatim>\<open>null\<close> and \<^verbatim>\<open>undefined\<close>
  (on those the read throws a \<^verbatim>\<open>TypeError\<close>, which every function below tests
  first): the property of an object, \<^verbatim>\<open>undefined\<close> when the object has none of that
  name, and \<^verbatim>\<open>undefined\<close> on a boolean, a number, a string or an array, none of
  which has a property of a name read here.
\<close>

fun getProp :: "jsval \<Rightarrow> string \<Rightarrow> jsval" where
  "getProp (Obj es) key = (case map_of es key of Some v \<Rightarrow> v | None \<Rightarrow> Undefined)"
| "getProp v key = Undefined"

text \<open>
  \<^verbatim>\<open>
  private transformImage(image: any): string | any {
    if (typeof image === 'string') { return image; }
    if (typeof image === 'object' && image.name) {
      return { name: image.name, username: image.username, password: image.password,
               aws: image.aws, runAsUser: image['run-as-user'] || image.runAsUser };
    }
    throw new PipelineError(ErrorType.VALIDATION_ERROR, 'Invalid image configuration');
  }
  \<close>
  \<^verbatim>\<open>typeof null\<close> is \<^verbatim>\<open>'object'\<close>, so \<^verbatim>\<open>null\<close> reaches \<^verbatim>\<open>image.name\<close>.
\<close>

fun transformImage :: "jsval \<Rightarrow> error + jsval" where
  "transformImage (Str s) = Inr (Str s)"
| "transformImage Null = Inl TypeError"
| "transformImage (Obj es) =
     (if truthy (getProp (Obj es) ''name'') then
        Inr (Obj [(''name'', getProp (Obj es) ''name''),
                  (''username'', getProp (Obj es) ''username''),
                  (''password'', getProp (Obj es) ''password''),
                  (''aws'', getProp (Obj es) ''aws''),
                  (''runAsUser'', jsOr (getProp (Obj es) ''run-as-user'') (getProp (Obj es) ''runAsUser''))])
      else Inl (PipelineError VALIDATION_ERROR ''Invalid image configuration''))"
| "transformImage v = Inl (PipelineError VALIDATION_ERROR ''Invalid image configuration'')"

text \<open>
  \<^verbatim>\<open>
  private transformOptions(options: any): any {
    return { maxTime: options['max-time'] || options.maxTime,
             size: options.size, docker: options.docker };
  }
  \<close>
\<close>

definition transformOptions :: "jsval \<Rightarrow> error + jsval" where
  "transformOptions options =
     (if options = Null \<or> options = Undefined then Inl TypeError
      else Inr (Obj [(''maxTime'', jsOr (getProp options ''max-time'') (getProp options ''maxTime'')),
                     (''size'', getProp options ''size''),
                     (''docker'', getProp options ''docker'')]))"

text \<open>
  \<^verbatim>\<open>
  private transformArtifacts(artifacts: any): any {
    if (Array.isArray(artifacts)) { return { paths: artifacts }; }
    return { paths: artifacts.paths || [], download: artifacts.download !== false };
  }
  \<close>
  The caller passes a truthy value, so the property reads do not throw.
\<close>

fun transformArtifacts :: "jsval \<Rightarrow> jsval" where
  "transformArtifacts (Arr xs) = Obj [(''paths'', Arr xs)]"
| "transformArtifacts artifacts =
     Obj [(''paths'', jsOr (getProp artifacts ''paths'') (Arr [])),
          (''download'', Bool (getProp artifacts ''download'' \<noteq> Bool False))]"

text \<open>
  \<^verbatim>\<open>
  private transformCondition(condition: any): any {
    return { changesets: condition.changesets ? {
        includePaths: condition.changesets.includePaths || condition.changesets['include-paths'],
        excludePaths: condition.changesets.excludePaths || condition.changesets['exclude-paths']
      } : undefined };
  }
  \<close>
\<close>

definition transformCondition :: "jsval \<Rightarrow> jsval" where
  "transformCondition condition =
     Obj [(''changesets'',
           (let changesets = getProp condition ''changesets'' in
            if truthy changesets then
              Obj [(''includePaths'', jsOr (getProp changesets ''includePaths'') (getProp changesets ''include-paths'')),
                   (''excludePaths'', jsOr (getProp changesets ''excludePaths'') (getProp changesets ''exclude-paths''))]
            else Undefined))]"

text \<open>
  \<^verbatim>\<open>
  private transformStep(step: any): any {
    if (!step.script) { throw new PipelineError(ErrorType.VALIDATION_ERROR, `Step must contain script. ...`); }
    return {
      name: step.name,
      image: step.image ? this.transformImage(step.image) : undefined,
      script: Array.isArray(step.script) ? step.script : [step.script],
      size: step.size,
      maxTime: step['max-time'] || step.maxTime,
      caches: step.caches,
      artifacts: step.artifacts ? this.transformArtifacts(step.artifacts) : undefined,
      services: step.services,
      trigger: step.trigger,
      condition: step.condition ? this.transformCondition(step.condition) : undefined,
      afterScript: step['after-script'] || step.afterScript,
      variables: step.variables,
      deployment: step.deployment
    };
  }
  \<close>
  The message of the error ends with a JSON rendering of the step, left out here.
  Of the calls in the literal only \<^verbatim>\<open>transformImage\<close> can throw.
\<close>

definition toArray :: "jsval \<Rightarrow> jsval" where
  "toArray v = (case v of Arr xs \<Rightarrow> Arr xs | _ \<Rightarrow> Arr [v])"

definition transformStep :: "jsval \<Rightarrow> error + jsval" where
  "transformStep step =
     (if step = Null \<or> step = Undefined then Inl TypeError
      else if \<not> truthy (getProp step ''script'') then
        Inl (PipelineError VALIDATION_ERROR ''Step must contain script'')
      else
        (case (if truthy (getProp step ''image'') then transformImage (getProp step ''image'')
               else Inr Undefined) of
           Inl e \<Rightarrow> Inl e
         | Inr img \<Rightarrow>
             Inr (Obj [(''name'', getProp step ''name''),
                       (''image'', img),
                       (''script'', toArray (getProp step ''script'')),
                       (''size'', getProp step ''size''),
                       (''maxTime'', jsOr (getProp step ''max-time'') (getProp step ''maxTime'')),
                       (''caches'', getProp step ''caches''),
                       (''artifacts'',
                          if truthy (getProp step ''artifacts'')
                          then transformArtifacts (getProp step ''artifacts'') else Undefined),
                       (''services'', getProp step ''services''),
                       (''trigger'', getProp step ''trigger''),
                       (''condition'',
                          if truthy (getProp step ''condition'')
                          then transformCondition (getProp step ''condition'') else Undefined),
                       (''afterScript'', jsOr (getProp step ''after-script'') (getProp step ''afterScript'')),
                       (''variables'', getProp step ''variables''),
                       (''deployment'', getProp step ''deployment'')])))"

subsection \<open>Concrete steps\<close>

text \<open>A step and an image that give both spellings of a key, and a step whose
  artifacts are a bare list.\<close>

definition bothFormsImage :: jsval where
  "bothFormsImage =
     Obj [(''name'', Str ''node:18''), (''run-as-user'', Num 1000), (''runAsUser'', Num 2000)]"

definition bothFormsStep :: jsval where
  "bothFormsStep =
     Obj [(''name'', Str ''build''),
          (''image'', bothFormsImage),
          (''script'', Arr [Str ''make'']),
          (''max-time'', Num 5), (''maxTime'', Num 10),
          (''after-script'', Arr [Str ''echo hyphen'']),
          (''afterScript'', Arr [Str ''echo camel''])]"

definition listArtifactsStep :: jsval where
  "listArtifactsStep =
     Obj [(''script'', Arr [Str ''make'']), (''artifacts'', Arr [Str ''dist/**''])]"

definition objectArtifactsStep :: jsval where
  "objectArtifactsStep =
     Obj [(''script'', Arr [Str ''make'']),
          (''artifacts'', Obj [(''paths'', Arr [Str ''dist/**''])])]"

text \<open>The value of a field of a transformed object, \<open>None\<close> when the transformation
  threw.\<close>

definition resultField :: "error + jsval \<Rightarrow> string \<Rightarrow> jsval option" where
  "resultField r key = (case r of Inl e \<Rightarrow> None | Inr v \<Rightarrow> Some (getProp v key))"

section \<open>Scheduler (\<^verbatim>\<open>core/runner.ts\<close>)\<close>

record ContainerResult =
  c_exitCode :: int
  c_output :: "string list"
  c_error :: "string option"

record StepResult =
  name :: string
  success :: bool
  exitCode :: int
  duration :: nat
  logs :: "string list"
  error :: "string option"

record ExecutionResult =
  exec_success :: bool
  exec_steps :: "StepResult list"
  exec_error :: "string option"

text \<open>
  A promise, as the code that awaits it sees it: the time at which it settles
  (counted from the start of the function that awaits) and the value it fulfils with
  or the reason it rejects with.
\<close>

datatype 'a promise = Fulfilled nat 'a | Rejected nat string

fun settleTime :: "'a promise \<Rightarrow> nat" where
  "settleTime (Fulfilled t v) = t"
| "settleTime (Rejected t e) = t"

fun isRejected :: "'a promise \<Rightarrow> bool" where
  "isRejected (Fulfilled t v) = False"
| "isRejected (Rejected t e) = True"

fun fulfilledValues :: "'a promise list \<Rightarrow> 'a list" where
  "fulfilledValues [] = []"
| "fulfilledValues (Fulfilled t v # ps) = v # fulfilledValues ps"
| "fulfilledValues (Rejected t e # ps) = fulfilledValues ps"

definition lastSettle :: "'a promise list \<Rightarrow> nat" where
  "lastSettle ps = foldr max (map settleTime ps) 0"

text \<open>The rejected promise that settles first (the first of the array among equals).\<close>

fun firstRejection :: "'a promise list \<Rightarrow> (nat \<times> string) option" where
  "firstRejection [] = None"
| "firstRejection (Fulfilled t v # ps) = firstRejection ps"
| "firstRejection (Rejected t e # ps) =
     (case firstRejection ps of
        None \<Rightarrow> Some (t, e)
      | Some (t', e') \<Rightarrow> if t' < t then Some (t', e') else Some (t, e))"

text \<open>\<^verbatim>\<open>Promise.all\<close>: rejects as soon as one promise rejects, and fulfils with all
  the values once every promise has fulfilled.\<close>

definition promiseAll :: "'a promise list \<Rightarrow> 'a list promise" where
  "promiseAll ps =
     (case firstRejection ps of
        Some (t, e) \<Rightarrow> Rejected t e
      | None \<Rightarrow> Fulfilled (lastSettle ps) (fulfilledValues ps))"

text \<open>\<^verbatim>\<open>Promise.allSettled\<close>: fulfils, once every promise has settled, with the
  outcomes.\<close>

definition promiseAllSettled :: "'a promise list \<Rightarrow> 'a promise list promise" where
  "promiseAllSettled ps = Fulfilled (lastSettle ps) ps"

text \<open>\<^verbatim>\<open>p.catch(handler)\<close> for a handler that returns a value.\<close>

fun catch :: "'a promise \<Rightarrow> (string \<Rightarrow> 'a) \<Rightarrow> 'a promise" where
  "catch (Fulfilled t v) handler = Fulfilled t v"
| "catch (Rejected t e) handler = Fulfilled t (handler e)"

text \<open>
  What the body of \<^verbatim>\<open>executeStep\<close> meets outside the runner, for the \<open>n\<close>-th step
  started in the run: the time the cache, artifact and container calls take, and
  either the result of \<^verbatim>\<open>runStepContainer\<close> or the message of an exception thrown by
  one of the calls (image pull, container creation, cache save).
\<close>

datatype stepRun = Returns nat ContainerResult | Throws nat string

type_synonym world = "nat \<Rightarrow> Step \<Rightarrow> stepRun"

text \<open>
  \<^verbatim>\<open>executeStep\<close>.  The state threaded through the scheduler is the list of names
  passed to \<^verbatim>\<open>logger.stepStart\<close>, the first statement of the \<^verbatim>\<open>try\<close> block: the
  steps started so far.  The whole body is inside \<^verbatim>\<open>try\<close>/\<^verbatim>\<open>catch\<close>, and the
  \<^verbatim>\<open>catch\<close> block returns a failure result: the promise never rejects.
  \<^verbatim>\<open>
  return { name: stepName, success: containerResult.exitCode === 0,
           exitCode: containerResult.exitCode, duration, logs: containerResult.output,
           error: containerResult.error ? new Error(containerResult.error) : undefined };
  } catch (error) { ...
  return { name: stepName, success: false, exitCode: 1, duration, logs: [], error: ... };
  \<close>
\<close>

definition executeStep ::
  "world \<Rightarrow> bool \<Rightarrow> Step \<Rightarrow> string list \<Rightarrow> StepResult promise \<times> string list" where
  "executeStep w dryRun step started =
     (let stepName = orElse (step_name step) ''Unnamed Step'';
          n = length started;
          started = started @ [stepName]
      in
      if dryRun then
        (Fulfilled 0 \<lparr>name = stepName, success = True, exitCode = 0, duration = 0,
                      logs = [''Dry run - no actual execution''], error = None\<rparr>, started)
      else
        (case w n step of
           Returns t containerResult \<Rightarrow>
             (Fulfilled t \<lparr>name = stepName,
                           success = (c_exitCode containerResult = 0),
                           exitCode = c_exitCode containerResult,
                           duration = t,
                           logs = c_output containerResult,
                           error = (case c_error containerResult of
                                      None \<Rightarrow> None
                                    | Some e \<Rightarrow> if e = [] then None else Some e)\<rparr>, started)
         | Throws t message \<Rightarrow>
             (Fulfilled t \<lparr>name = stepName, success = False, exitCode = 1, duration = t,
                           logs = [], error = Some message\<rparr>, started)))"

text \<open>
  \<^verbatim>\<open>
  const stepPromises = steps.map((step, index) =>
    this.executeStep(step, context, options).catch(error => ({
      name: step.name || `Parallel Step ${index + 1}`,
      success: false, exitCode: 1, duration: 0, logs: [], error: ... })));
  \<close>
  Every child is started, in order, before the first \<^verbatim>\<open>await\<close>.
\<close>

definition syntheticFailure :: "Step \<Rightarrow> nat \<Rightarrow> string \<Rightarrow> StepResult" where
  "syntheticFailure step index reason =
     \<lparr>name = orElse (step_name step) (''Parallel Step '' @ toString (index + 1)),
      success = False, exitCode = 1, duration = 0, logs = [], error = Some reason\<rparr>"

fun startSteps ::
  "world \<Rightarrow> bool \<Rightarrow> Step list \<Rightarrow> nat \<Rightarrow> string list \<Rightarrow> StepResult promise list \<times> string list" where
  "startSteps w dryRun [] index started = ([], started)"
| "startSteps w dryRun (step # rest) index started =
     (case executeStep w dryRun step started of
        (p, started') \<Rightarrow>
          (case startSteps w dryRun rest (index + 1) started' of
             (ps, started'') \<Rightarrow> (catch p (syntheticFailure step index) # ps, started'')))"

text \<open>The loop of the \<^verbatim>\<open>catch\<close> block of the fail-fast branch over the settled
  promises: a fulfilled one gives its value, a rejected one a synthetic failure.\<close>

fun collectSettled :: "Step list \<Rightarrow> nat \<Rightarrow> StepResult promise list \<Rightarrow> StepResult list" where
  "collectSettled ss i [] = []"
| "collectSettled ss i (Fulfilled t v # ps) = v # collectSettled ss (i + 1) ps"
| "collectSettled ss i (Rejected t reason # ps) =
     \<lparr>name = (if i < length ss
               then orElse (step_name (ss ! i)) (''Parallel Step '' @ toString (i + 1))
               else ''Parallel Step '' @ toString (i + 1)),
      success = False, exitCode = 1, duration = 0, logs = [], error = Some reason\<rparr>
     # collectSettled ss (i + 1) ps"

text \<open>
  \<^verbatim>\<open>executeParallelSteps\<close>.  The result is the promise the \<^verbatim>\<open>async\<close> function
  returns.
  \<^verbatim>\<open>
  if (failFast) {
    const results: StepResult[] = [];
    try {
      await Promise.all(stepPromises);
      const settledResults = await Promise.allSettled(stepPromises);
      for (const result of settledResults) {
        if (result.status === 'fulfilled') { results.push(result.value); } }
      return results;
    } catch {
      const settledResults = await Promise.allSettled(stepPromises);
      for (let i = 0; i < settledResults.length; i++) { ... }
      return results;
    }
  } else {
    return Promise.all(stepPromises);
  }
  \<close>
\<close>

definition executeParallelSteps ::
  "world \<Rightarrow> bool \<Rightarrow> ParallelSteps \<Rightarrow> string list \<Rightarrow> StepResult list promise \<times> string list" where
  "executeParallelSteps w dryRun parallel started =
     (case startSteps w dryRun (steps parallel) 0 started of
        (stepPromises, started') \<Rightarrow>
          (if failFast parallel = Some True then
             (case promiseAll stepPromises of
                Fulfilled t vs \<Rightarrow>
                  (case promiseAllSettled stepPromises of
                     Fulfilled t' settledResults \<Rightarrow>
                       Fulfilled (max t t') (fulfilledValues settledResults)
                   | Rejected t' e \<Rightarrow> Rejected (max t t') e)
              | Rejected t e \<Rightarrow>
                  (case promiseAllSettled stepPromises of
                     Fulfilled t' settledResults \<Rightarrow>
                       Fulfilled (max t t') (collectSettled (steps parallel) 0 settledResults)
                   | Rejected t' e' \<Rightarrow> Rejected (max t t') e'))
           else promiseAll stepPromises,
           started'))"

text \<open>
  The loop of \<^verbatim>\<open>executePipeline\<close> from item \<open>i\<close> on, with \<^verbatim>\<open>stepResults\<close> and the
  steps started so far; \<^verbatim>\<open>break\<close> and the \<^verbatim>\<open>catch\<close> block end it.
  \<^verbatim>\<open>
  if (isStep(pipelineItem)) {
    const result = await this.executeStep(pipelineItem, context, options);
    stepResults.push(result);
    if (!result.success) { success = false; error = result.error; break; }
  } else if (isParallelSteps(pipelineItem)) {
    const results = await this.executeParallelSteps(pipelineItem, context, options);
    stepResults.push(...results);
    const failedResults = results.filter(r => !r.success);
    if (failedResults.length > 0) { success = false; error = failedResults[0]?.error; break; }
  }
  \<close>
\<close>

fun pipelineLoop ::
  "world \<Rightarrow> bool \<Rightarrow> PipelineItem list \<Rightarrow> StepResult list \<Rightarrow> string list
     \<Rightarrow> ExecutionResult \<times> string list" where
  "pipelineLoop w dryRun [] stepResults started =
     (\<lparr>exec_success = True, exec_steps = stepResults, exec_error = None\<rparr>, started)"
| "pipelineLoop w dryRun (StepItem step # rest) stepResults started =
     (case executeStep w dryRun step started of
        (Fulfilled t result, started') \<Rightarrow>
          if \<not> success result then
            (\<lparr>exec_success = False, exec_steps = stepResults @ [result],
              exec_error = error result\<rparr>, started')
          else pipelineLoop w dryRun rest (stepResults @ [result]) started'
      | (Rejected t err, started') \<Rightarrow>
          (\<lparr>exec_success = False, exec_steps = stepResults, exec_error = Some err\<rparr>, started'))"
| "pipelineLoop w dryRun (ParallelItem parallel # rest) stepResults started =
     (case executeParallelSteps w dryRun parallel started of
        (Fulfilled t results, started') \<Rightarrow>
          (case filter (\<lambda>r. \<not> success r) results of
             [] \<Rightarrow> pipelineLoop w dryRun rest (stepResults @ results) started'
           | failed # others \<Rightarrow>
               (\<lparr>exec_success = False, exec_steps = stepResults @ results,
                 exec_error = error failed\<rparr>, started'))
      | (Rejected t err, started') \<Rightarrow>
          (\<lparr>exec_success = False, exec_steps = stepResults, exec_error = Some err\<rparr>, started'))"

text \<open>\<^verbatim>\<open>executePipeline\<close>: the result, and the names of the steps started, in order.\<close>

definition executePipeline :: "world \<Rightarrow> bool \<Rightarrow> Pipeline \<Rightarrow> ExecutionResult \<times> string list" where
  "executePipeline w dryRun pipeline = pipelineLoop w dryRun pipeline [] []"

text \<open>The steps of an item, and whether a list of results holds a failure.\<close>

fun itemSteps :: "PipelineItem \<Rightarrow> Step list" where
  "itemSteps (StepItem step) = [step]"
| "itemSteps (ParallelItem parallel) = steps parallel"

definition stepLabel :: "Step \<Rightarrow> string" where
  "stepLabel step = orElse (step_name step) ''Unnamed Step''"

subsection \<open>Concrete pipelines\<close>

text \<open>Scenario S2: a failing step followed by a step that must not run.  Scenario
  S3: a fail-fast group of a step that takes five seconds and succeeds and a step
  that fails after a tenth of a second.\<close>

definition namedStep :: "string \<Rightarrow> string \<Rightarrow> Step" where
  "namedStep label line =
     \<lparr>step_name = Some label, step_script = [line], step_caches = None, step_artifacts = None,
      step_services = None, step_afterScript = None, step_variables = None\<rparr>"

definition okResult :: ContainerResult where
  "okResult = \<lparr>c_exitCode = 0, c_output = [], c_error = None\<rparr>"

definition failResult :: ContainerResult where
  "failResult = \<lparr>c_exitCode = 1, c_output = [], c_error = None\<rparr>"

definition scriptWorld :: world where
  "scriptWorld n step =
     (if step_script step = [''false''] then Returns 100 failResult
      else if step_script step = [''sleep 5; true''] then Returns 5000 okResult
      else Returns 10 okResult)"

definition pipelineS2 :: Pipeline where
  "pipelineS2 = [StepItem (namedStep ''first'' ''false''), StepItem (namedStep ''second'' ''echo never'')]"

definition groupS3 :: ParallelSteps where
  "groupS3 =
     \<lparr>failFast = Some True,
      steps = [namedStep ''sleeper'' ''sleep 5; true'', namedStep ''failing'' ''false'']\<rparr>"

section \<open>Cache manager: \<^verbatim>\<open>saveCache\<close> and \<^verbatim>\<open>restoreCache\<close>\<close>

type_synonym bytes = "nat list"

text \<open>\<^verbatim>\<open>getCachePath(cacheName)\<close> is \<^verbatim>\<open>path.join(this.config.path, `${cacheName}.tar.gz`)\<close>;
  \<^verbatim>\<open>saveCache\<close> writes to \<^verbatim>\<open>`${cacheFilePath}.tmp`\<close>.\<close>

definition getCachePath :: "string \<Rightarrow> string \<Rightarrow> string" where
  "getCachePath cachePath cacheName = pathJoin cachePath (cacheName @ ''.tar.gz'')"

definition tempCacheFilePath :: "string \<Rightarrow> string \<Rightarrow> string" where
  "tempCacheFilePath cachePath cacheName = getCachePath cachePath cacheName @ ''.tmp''"

text \<open>
  The two methods are \<^verbatim>\<open>async\<close>: each runs up to its next \<^verbatim>\<open>await\<close>, and between
  two of its awaits the other may run.  A call is followed by its position.

  \<^verbatim>\<open>saveCache\<close>, with the archive that \<^verbatim>\<open>tar.create\<close> is to produce:
  \<^verbatim>\<open>
  await fs.access(sourcePath);              // absent: return
  await fs.mkdir(this.config.path, ...);
  await tar.create({ file: tempCacheFilePath, ... }, ...);
  await fs.rename(tempCacheFilePath, cacheFilePath);
  const stats = await fs.stat(cacheFilePath); ... await this.saveCacheMetadata();
  \<close>
\<close>

datatype savePosition =
  SaveIdle
| SaveAccessed bytes
| SaveDirReady bytes
| SaveWriting bytes
| SaveWritten bytes
| SaveRenamed

text \<open>
  \<^verbatim>\<open>restoreCache\<close>:
  \<^verbatim>\<open>
  await fs.access(cacheFilePath);           // absent: return false
  await fs.mkdir(targetDir, ...);
  await tar.extract({ file: cacheFilePath, cwd: targetDir, strip: 0 });
  ... metadata ...; return true;            // any exception: return false
  \<close>
  \<open>RestoreReturned ok extracted\<close>: the call has returned \<open>ok\<close>, having extracted
  the bytes \<open>extracted\<close>.
\<close>

datatype restorePosition =
  RestoreIdle
| RestoreAccessed
| RestoreDirReady
| RestoreExtracted bytes
| RestoreReturned bool "bytes option"

text \<open>
  The state: the files of the cache directory; the saves still to come, each with
  whether its source path exists and the archive of its source; the positions of
  the running save and of the restore; and, for the statement of the property, the
  contents that renames have moved to the cache file so far.
\<close>

record cacheState =
  files :: "string \<Rightarrow> bytes option"
  pendingSaves :: "(bool \<times> bytes) list"
  saver :: savePosition
  restorer :: restorePosition
  published :: "bytes list"

text \<open>
  What may happen next: the save takes its next step (for a write, \<open>n\<close> more bytes
  reach the temporary file, at least one), the call the save awaits throws, the
  restore takes its next step, the call the restore awaits throws.
\<close>

datatype event = SaveStep nat | SaveThrow | RestoreStep | RestoreThrow

text \<open>
  A step of the saves, one after the other.  \<^verbatim>\<open>tar.create\<close> opens the temporary
  file (creating or truncating it), writes the archive in pieces and resolves when
  all of it is written.  \<^verbatim>\<open>fs.rename\<close> moves the content of the temporary file to
  the cache file in one step.
\<close>

definition saverStep :: "string \<Rightarrow> string \<Rightarrow> nat \<Rightarrow> cacheState \<Rightarrow> cacheState" where
  "saverStep cacheFilePath tempPath n s =
     (case saver s of
        SaveIdle \<Rightarrow>
          (case pendingSaves s of
             [] \<Rightarrow> s
           | (sourceExists, archive) # rest \<Rightarrow>
               if sourceExists then s\<lparr>pendingSaves := rest, saver := SaveAccessed archive\<rparr>
               else s\<lparr>pendingSaves := rest\<rparr>)
      | SaveAccessed archive \<Rightarrow> s\<lparr>saver := SaveDirReady archive\<rparr>
      | SaveDirReady archive \<Rightarrow>
          s\<lparr>files := (files s)(tempPath \<mapsto> []), saver := SaveWriting archive\<rparr>
      | SaveWriting archive \<Rightarrow>
          (case files s tempPath of
             None \<Rightarrow> s\<lparr>saver := SaveIdle\<rparr>
           | Some written \<Rightarrow>
               if written = archive then s\<lparr>saver := SaveWritten archive\<rparr>
               else s\<lparr>files := (files s)(tempPath \<mapsto> take (length written + max 1 n) archive)\<rparr>)
      | SaveWritten archive \<Rightarrow>
          (case files s tempPath of
             None \<Rightarrow> s\<lparr>saver := SaveIdle\<rparr>
           | Some content \<Rightarrow>
               s\<lparr>files := (files s)(cacheFilePath \<mapsto> content, tempPath := None),
                 saver := SaveRenamed,
                 published := published s @ [content]\<rparr>)
      | SaveRenamed \<Rightarrow> s\<lparr>saver := SaveIdle\<rparr>)"

text \<open>The awaited call throws: \<^verbatim>\<open>saveCache\<close> logs and throws a
  \<^verbatim>\<open>PipelineError\<close>; the files stay as they are.\<close>

definition saverThrow :: "cacheState \<Rightarrow> cacheState" where
  "saverThrow s = (case saver s of SaveIdle \<Rightarrow> s | _ \<Rightarrow> s\<lparr>saver := SaveIdle\<rparr>)"

text \<open>
  A step of the restore.  \<^verbatim>\<open>tar.extract\<close> opens the cache file and extracts what
  the opened file holds; a rename that replaces the cache file later does not change
  the opened file.
\<close>

definition restorerStep :: "string \<Rightarrow> cacheState \<Rightarrow> cacheState" where
  "restorerStep cacheFilePath s =
     (case restorer s of
        RestoreIdle \<Rightarrow>
          (case files s cacheFilePath of
             None \<Rightarrow> s\<lparr>restorer := RestoreReturned False None\<rparr>
           | Some content \<Rightarrow> s\<lparr>restorer := RestoreAccessed\<rparr>)
      | RestoreAccessed \<Rightarrow> s\<lparr>restorer := RestoreDirReady\<rparr>
      | RestoreDirReady \<Rightarrow>
          (case files s cacheFilePath of
             None \<Rightarrow> s\<lparr>restorer := RestoreReturned False None\<rparr>
           | Some content \<Rightarrow> s\<lparr>restorer := RestoreExtracted content\<rparr>)
      | RestoreExtracted content \<Rightarrow> s\<lparr>restorer := RestoreReturned True (Some content)\<rparr>
      | RestoreReturned ok extracted \<Rightarrow> s)"

text \<open>The awaited call throws: the \<^verbatim>\<open>catch\<close> block of \<^verbatim>\<open>restoreCache\<close> logs and
  returns false.\<close>

definition restorerThrow :: "cacheState \<Rightarrow> cacheState" where
  "restorerThrow s =
     (case restorer s of
        RestoreAccessed \<Rightarrow> s\<lparr>restorer := RestoreReturned False None\<rparr>
      | RestoreDirReady \<Rightarrow> s\<lparr>restorer := RestoreReturned False None\<rparr>
      | _ \<Rightarrow> s)"

definition cacheStep :: "string \<Rightarrow> string \<Rightarrow> cacheState \<Rightarrow> event \<Rightarrow> cacheState" where
  "cacheStep cachePath cacheName s e =
     (case e of
        SaveStep n \<Rightarrow>
          saverStep (getCachePath cachePath cacheName) (tempCacheFilePath cachePath cacheName) n s
      | SaveThrow \<Rightarrow> saverThrow s
      | RestoreStep \<Rightarrow> restorerStep (getCachePath cachePath cacheName) s
      | RestoreThrow \<Rightarrow> restorerThrow s)"

text \<open>A run: a sequence of saves of one cache name and one restore of that name,
  interleaved as the list of events says, from the files \<open>files0\<close>.\<close>

definition initialCacheState :: "(string \<Rightarrow> bytes option) \<Rightarrow> (bool \<times> bytes) list \<Rightarrow> cacheState" where
  "initialCacheState files0 saves =
     \<lparr>files = files0, pendingSaves = saves, saver = SaveIdle, restorer = RestoreIdle,
      published = []\<rparr>"

definition cacheRun ::
  "string \<Rightarrow> string \<Rightarrow> (string \<Rightarrow> bytes option) \<Rightarrow> (bool \<times> bytes) list \<Rightarrow> event list \<Rightarrow> cacheState" where
  "cacheRun cachePath cacheName files0 saves events =
     foldl (cacheStep cachePath cacheName) (initialCacheState files0 saves) events"

text \<open>The archives of the saves whose source path exists.\<close>

definition savedArchives :: "(bool \<times> bytes) list \<Rightarrow> bytes list" where
  "savedArchives saves = map snd (filter fst saves)"

text \<open>The invariant of a run.\<close>

definition cacheInvariant ::
  "string \<Rightarrow> string \<Rightarrow> (string \<Rightarrow> bytes option) \<Rightarrow> (bool \<times> bytes) list \<Rightarrow> cacheState \<Rightarrow> bool" where
  "cacheInvariant cacheFilePath tempPath files0 saves s =
     (set (pendingSaves s) \<subseteq> set saves
      \<and> set (published s) \<subseteq> set (savedArchives saves)
      \<and> (files s cacheFilePath = files0 cacheFilePath
           \<or> (\<exists>a \<in> set (published s). files s cacheFilePath = Some a))
      \<and> (case saver s of
            SaveIdle \<Rightarrow> True
          | SaveAccessed a \<Rightarrow> a \<in> set (savedArchives saves)
          | SaveDirReady a \<Rightarrow> a \<in> set (savedArchives saves)
          | SaveWriting a \<Rightarrow> a \<in> set (savedArchives saves)
          | SaveWritten a \<Rightarrow> a \<in> set (savedArchives saves) \<and> files s tempPath = Some a
          | SaveRenamed \<Rightarrow> True)
      \<and> (case restorer s of
            RestoreExtracted b \<Rightarrow> Some b = files0 cacheFilePath \<or> b \<in> set (published s)
          | RestoreReturned ok extracted \<Rightarrow>
              (\<not> ok \<and> extracted = None)
              \<or> (ok \<and> (\<exists>b. extracted = Some b
                         \<and> (Some b = files0 cacheFilePath \<or> b \<in> set (published s))))
          | _ \<Rightarrow> True))"

subsection \<open>A concrete run\<close>

text \<open>
  Two saves of the cache \<^verbatim>\<open>node\<close> into an empty cache directory \<^verbatim>\<open>/c\<close>.  The first
  completes; during the second, when two of its three bytes are in the temporary
  file, the restore extracts the cache file.
\<close>

definition exampleSaves :: "(bool \<times> bytes) list" where
  "exampleSaves = [(True, [1, 2, 3, 4]), (True, [5, 6, 7])]"

definition exampleEvents :: "event list" where
  "exampleEvents =
     [SaveStep 0, SaveStep 0, SaveStep 0, SaveStep 4, SaveStep 0, SaveStep 0, SaveStep 0,
      SaveStep 0, SaveStep 0, SaveStep 0, RestoreStep, SaveStep 2, RestoreStep, RestoreStep,
      RestoreStep]"

text \<open>A restore of a cache that was never saved.\<close>

definition missEvents :: "event list" where
  "missEvents = [SaveStep 0, SaveStep 0, SaveStep 0, SaveStep 2, RestoreStep]"

section \<open>Artifact manager: \<^verbatim>\<open>sanitizeStepName\<close>\<close>

text \<open>
  \<^verbatim>\<open>
  private sanitizeStepName(stepName: string): string {
    return stepName
      .replace(/[^a-zA-Z0-9_-]/g, '_')
      .replace(/_{2,}/g, '_')
      .replace(/^_+|_+$/g, '')
      .toLowerCase();
  }
  \<close>
  A string is a list of code units.  Every unit outside ASCII is outside the class
  \<^verbatim>\<open>[a-zA-Z0-9_-]\<close> and becomes an underscore, and runs of underscores collapse, so
  the result does not depend on how many units a non-ASCII character takes.  When
  \<^verbatim>\<open>toLowerCase\<close> runs the string holds units of the class only, so lowering the
  letters \<^verbatim>\<open>A-Z\<close> is all it does.
\<close>

text \<open>The character class \<^verbatim>\<open>[a-zA-Z0-9_-]\<close>.\<close>

definition isAllowedChar :: "char \<Rightarrow> bool" where
  "isAllowedChar c = (let n = (of_char c :: nat) in
     (97 \<le> n \<and> n \<le> 122) \<or> (65 \<le> n \<and> n \<le> 90) \<or> (48 \<le> n \<and> n \<le> 57) \<or> n = 95 \<or> n = 45)"

text \<open>\<^verbatim>\<open>.replace(/[^a-zA-Z0-9_-]/g, '_')\<close>\<close>

definition replaceDisallowed :: "string \<Rightarrow> string" where
  "replaceDisallowed s = map (\<lambda>c. if isAllowedChar c then c else CHR ''_'') s"

text \<open>\<^verbatim>\<open>.replace(/_{2,}/g, '_')\<close>: every maximal run of two or more underscores
  becomes one underscore.\<close>

fun collapseUnderscores :: "string \<Rightarrow> string" where
  "collapseUnderscores [] = []"
| "collapseUnderscores [c] = [c]"
| "collapseUnderscores (c # d # cs) =
     (if c = CHR ''_'' \<and> d = CHR ''_'' then collapseUnderscores (d # cs)
      else c # collapseUnderscores (d # cs))"

text \<open>\<^verbatim>\<open>.replace(/^_+|_+$/g, '')\<close>: the leading run and the trailing run of
  underscores are removed.\<close>

fun dropTrailingUnderscores :: "string \<Rightarrow> string" where
  "dropTrailingUnderscores [] = []"
| "dropTrailingUnderscores (c # cs) =
     (let r = dropTrailingUnderscores cs in if r = [] \<and> c = CHR ''_'' then [] else c # r)"

definition trimUnderscores :: "string \<Rightarrow> string" where
  "trimUnderscores s = dropTrailingUnderscores (dropWhile (\<lambda>c. c = CHR ''_'') s)"

definition toLowerChar :: "char \<Rightarrow> char" where
  "toLowerChar c = (let n = (of_char c :: nat) in
     if 65 \<le> n \<and> n \<le> 90 then char_of (n + 32) else c)"

definition toLowerCase :: "string \<Rightarrow> string" where
  "toLowerCase s = map toLowerChar s"

definition sanitizeStepName :: "string \<Rightarrow> string" where
  "sanitizeStepName s =
     toLowerCase (trimUnderscores (collapseUnderscores (replaceDisallowed s)))"

text \<open>The class \<^verbatim>\<open>[a-z0-9_-]\<close> of the specification, and a match of the whole string
  against \<^verbatim>\<open>[a-z0-9_-]+\<close>.\<close>

definition isSanitizedChar :: "char \<Rightarrow> bool" where
  "isSanitizedChar c = (let n = (of_char c :: nat) in
     (97 \<le> n \<and> n \<le> 122) \<or> (48 \<le> n \<and> n \<le> 57) \<or> n = 95 \<or> n = 45)"

definition matchesSanitizedPlus :: "string \<Rightarrow> bool" where
  "matchesSanitizedPlus s = (s \<noteq> [] \<and> list_all isSanitizedChar s)"

text \<open>A character of \<^verbatim>\<open>[a-zA-Z0-9-]\<close>: one that survives sanitization.\<close>

definition isNameChar :: "char \<Rightarrow> bool" where
  "isNameChar c = (isAllowedChar c \<and> c \<noteq> CHR ''_'')"

abbreviation noDoubleUnderscore :: "string \<Rightarrow> bool" where
  "noDoubleUnderscore \<equiv> successively (\<lambda>a b. \<not> (a = CHR ''_'' \<and> b = CHR ''_''))"

chapter \<open>Verification\<close>

section \<open>Properties of the environment manager\<close>

lemma setProp_map_of: "map_of (setProp k v m) = (map_of m)(k \<mapsto> v)"
  by (induction m) (auto simp: fun_eq_iff)

lemma setProp_keys: "fst ` set (setProp k v m) = insert k (fst ` set m)"
  by (induction m) (force split: if_splits)+

lemma setProp_distinct: "distinct (map fst m) \<Longrightarrow> distinct (map fst (setProp k v m))"
proof (induction m)
  case Nil
  show ?case by simp
next
  case (Cons p m)
  obtain k' w where p: "p = (k', w)" by (cases p)
  from Cons have d: "distinct (map fst (setProp k v m))" "k' \<notin> fst ` set m" by (auto simp: p)
  show ?case
  proof (cases "k' = k")
    case True
    with Cons.prems show ?thesis by (simp add: p)
  next
    case False
    with d have "k' \<notin> fst ` set (setProp k v m)" by (simp add: setProp_keys)
    with d(1) False show ?thesis by (simp add: p del: set_map) (simp add: image_iff)
  qed
qed

lemma setProp_entries: "set (setProp k v m) \<subseteq> insert (k, v) (set m)"
  by (induction m) (auto split: if_splits)

lemma mergeEntry_map_of:
  "map_of (mergeEntry m entry) = map_of m ++ map_of (nonEmptyEntries [entry])"
  by (cases entry) (simp add: mergeEntry_def nonEmptyEntries_def isSkipped_def setProp_map_of)

lemma nonEmptyEntries_append: "nonEmptyEntries (xs @ ys) = nonEmptyEntries xs @ nonEmptyEntries ys"
  by (simp add: nonEmptyEntries_def)

lemma foldl_mergeEntry_map_of:
  "map_of (foldl mergeEntry m e) = map_of m ++ map_of (rev (nonEmptyEntries e))"
proof (induction e arbitrary: m)
  case Nil
  show ?case by (simp add: nonEmptyEntries_def)
next
  case (Cons x xs)
  have "nonEmptyEntries (x # xs) = nonEmptyEntries [x] @ nonEmptyEntries xs"
    using nonEmptyEntries_append[of "[x]" xs] by simp
  then have "map_of (rev (nonEmptyEntries (x # xs)))
      = map_of (nonEmptyEntries [x]) ++ map_of (rev (nonEmptyEntries xs))"
    by (simp add: nonEmptyEntries_def)
  with Cons[of "mergeEntry m x"] show ?case by (simp add: mergeEntry_map_of)
qed

lemma foldl_merge_map_of:
  "map_of (foldl (\<lambda>merged e. foldl mergeEntry merged e) m envs)
     = map_of m ++ map_of (rev (nonEmptyEntries (concat envs)))"
proof (induction envs arbitrary: m)
  case Nil
  show ?case by (simp add: nonEmptyEntries_def)
next
  case (Cons e es)
  show ?case
    by (simp add: Cons foldl_mergeEntry_map_of nonEmptyEntries_append)
qed

lemma mergeEnvironments_map_of:
  "map_of (mergeEnvironments envs) = map_of (rev (nonEmptyEntries (concat envs)))"
  by (simp add: mergeEnvironments_def foldl_merge_map_of)

lemma mergeEntry_entries:
  "\<forall>p \<in> set m. \<not> isSkipped (snd p) \<Longrightarrow> \<forall>p \<in> set (mergeEntry m entry). \<not> isSkipped (snd p)"
  using setProp_entries[of "fst entry" "snd entry" m]
  by (cases entry) (auto simp: mergeEntry_def isSkipped_def)

lemma mergeEntry_distinct:
  "distinct (map fst m) \<Longrightarrow> distinct (map fst (mergeEntry m entry))"
  by (cases entry) (simp add: mergeEntry_def setProp_distinct)

lemma foldl_mergeEntry_inv:
  "distinct (map fst m) \<and> (\<forall>p \<in> set m. \<not> isSkipped (snd p)) \<Longrightarrow>
   distinct (map fst (foldl mergeEntry m e)) \<and> (\<forall>p \<in> set (foldl mergeEntry m e). \<not> isSkipped (snd p))"
proof (induction e arbitrary: m)
  case Nil
  then show ?case by simp
next
  case (Cons x xs)
  have "distinct (map fst (mergeEntry m x)) \<and> (\<forall>p \<in> set (mergeEntry m x). \<not> isSkipped (snd p))"
    using Cons.prems mergeEntry_distinct mergeEntry_entries by blast
  from Cons.IH[OF this] show ?case by simp
qed

lemma foldl_merge_inv:
  "distinct (map fst m) \<and> (\<forall>p \<in> set m. \<not> isSkipped (snd p)) \<Longrightarrow>
   distinct (map fst (foldl (\<lambda>merged e. foldl mergeEntry merged e) m envs))
   \<and> (\<forall>p \<in> set (foldl (\<lambda>merged e. foldl mergeEntry merged e) m envs). \<not> isSkipped (snd p))"
proof (induction envs arbitrary: m)
  case Nil
  then show ?case by simp
next
  case (Cons e es)
  from Cons.IH[OF foldl_mergeEntry_inv[OF Cons.prems]] show ?case by simp
qed

lemma mergeEnvironments_distinct: "distinct (map fst (mergeEnvironments envs))"
  using foldl_merge_inv[of "[]" envs] by (simp add: mergeEnvironments_def)

lemma mergeEnvironments_entries: "p \<in> set (mergeEnvironments envs) \<Longrightarrow> \<not> isSkipped (snd p)"
  using foldl_merge_inv[of "[]" envs] by (simp add: mergeEnvironments_def)

lemma map_of_no_key: "\<forall>w. (k, w) \<in> set e \<longrightarrow> isSkipped w \<Longrightarrow> map_of (rev (nonEmptyEntries e)) k = None"
  by (auto simp: map_of_eq_None_iff nonEmptyEntries_def)

lemma map_of_no_key_concat:
  "\<forall>e \<in> set es. \<forall>w. (k, w) \<in> set e \<longrightarrow> isSkipped w \<Longrightarrow>
   map_of (rev (nonEmptyEntries (concat es))) k = None"
  by (rule map_of_no_key) auto

lemma systemVariables_keys: "map fst (systemVariables c g) = reservedNames"
  by (simp add: systemVariables_def reservedNames_def)

lemma reservedNames_distinct: "distinct reservedNames"
  by (simp add: reservedNames_def)

lemma systemVariables_distinct: "distinct (map fst (systemVariables c g))"
  by (simp add: systemVariables_keys reservedNames_distinct)

lemma objectAssign_map_of: "map_of (objectAssign t s) = map_of t ++ map_of (rev s)"
proof (induction s arbitrary: t)
  case Nil
  show ?case by (simp add: objectAssign_def)
next
  case (Cons x xs)
  have "map_of (objectAssign (setProp (fst x) (snd x) t) xs)
          = map_of (setProp (fst x) (snd x) t) ++ map_of (rev xs)"
    by (rule Cons.IH)
  moreover have "objectAssign t (x # xs) = objectAssign (setProp (fst x) (snd x) t) xs"
    by (simp add: objectAssign_def)
  ultimately show ?case by (cases x) (simp add: setProp_map_of)
qed

lemma objectAssign_distinct: "distinct (map fst t) \<Longrightarrow> distinct (map fst (objectAssign t s))"
proof (induction s arbitrary: t)
  case Nil
  then show ?case by (simp add: objectAssign_def)
next
  case (Cons x xs)
  have "objectAssign t (x # xs) = objectAssign (setProp (fst x) (snd x) t) xs"
    by (simp add: objectAssign_def)
  with Cons.IH[OF setProp_distinct[OF Cons.prems]] show ?case by simp
qed

lemma map_of_NoneI: "k \<notin> fst ` set l \<Longrightarrow> map_of l k = None"
  by (simp add: map_of_eq_None_iff)

lemma map_of_rev_distinct: "distinct (map fst l) \<Longrightarrow> map_of (rev l) = map_of l"
proof (rule ext)
  fix k
  assume d: "distinct (map fst l)"
  then have d': "distinct (map fst (rev l))" by (simp add: rev_map[symmetric])
  show "map_of (rev l) k = map_of l k"
  proof (cases "map_of l k")
    case None
    then have "k \<notin> fst ` set (rev l)" by (simp add: map_of_eq_None_iff)
    then have "map_of (rev l) k = None" by (rule map_of_NoneI)
    with None show ?thesis by simp
  next
    case (Some v)
    with d have "(k, v) \<in> set (rev l)" by simp
    with d' Some show ?thesis by simp
  qed
qed

lemma getBitbucketVariables_distinct: "distinct (map fst (getBitbucketVariables config c g))"
  by (simp add: getBitbucketVariables_def Let_def systemVariables_distinct objectAssign_distinct
      split: option.split)

lemma getBitbucketVariables_map_of:
  "map_of (getBitbucketVariables config c g) =
     (case bitbucketVariables config of
        None \<Rightarrow> map_of (systemVariables c g)
      | Some vars \<Rightarrow> map_of (systemVariables c g) ++ map_of (rev vars))"
proof (cases "bitbucketVariables config")
  case None
  then show ?thesis by (simp add: getBitbucketVariables_def)
next
  case (Some vars)
  let ?v1 = "objectAssign (systemVariables c g) vars"
  have d: "distinct (map fst ?v1)" by (simp add: objectAssign_distinct systemVariables_distinct)
  have "map_of (objectAssign ?v1 ?v1) = map_of ?v1 ++ map_of (rev ?v1)" by (rule objectAssign_map_of)
  also have "\<dots> = map_of ?v1"
    by (rule ext) (simp add: map_of_rev_distinct[OF d] map_add_def split: option.split)
  finally show ?thesis using Some
    by (simp add: getBitbucketVariables_def Let_def objectAssign_map_of)
qed

lemma nonEmpty_map_of_distinct:
  "distinct (map fst l) \<Longrightarrow>
   map_of (rev (nonEmptyEntries l)) k =
     (case map_of l k of None \<Rightarrow> None | Some v \<Rightarrow> if isSkipped v then None else Some v)"
proof -
  assume d: "distinct (map fst l)"
  then have df: "distinct (map fst (nonEmptyEntries l))"
    by (simp add: nonEmptyEntries_def distinct_map_filter)
  have eq: "map_of (rev (nonEmptyEntries l)) k = map_of (nonEmptyEntries l) k"
    by (simp add: map_of_rev_distinct[OF df])
  show ?thesis
  proof (cases "map_of l k")
    case None
    then have "k \<notin> fst ` set (nonEmptyEntries l)"
      by (auto simp: map_of_eq_None_iff nonEmptyEntries_def)
    then have "map_of (nonEmptyEntries l) k = None" by (rule map_of_NoneI)
    then show ?thesis using None eq by simp
  next
    case (Some v)
    with d have m: "(k, v) \<in> set l" by simp
    show ?thesis
    proof (cases "isSkipped v")
      case True
      have "k \<notin> fst ` set (nonEmptyEntries l)"
      proof
        assume "k \<in> fst ` set (nonEmptyEntries l)"
        then obtain w where w: "(k, w) \<in> set l" "\<not> isSkipped w"
          by (auto simp: nonEmptyEntries_def)
        with d have "map_of l k = Some w" by simp
        with Some True w show False by simp
      qed
      then have "map_of (nonEmptyEntries l) k = None" by (rule map_of_NoneI)
      then show ?thesis using Some True eq by simp
    next
      case False
      with m have "(k, v) \<in> set (nonEmptyEntries l)" by (simp add: nonEmptyEntries_def)
      with df have "map_of (nonEmptyEntries l) k = Some v" by simp
      then show ?thesis using Some False eq by simp
    qed
  qed
qed

lemma nonEmpty_merged: "nonEmptyEntries (mergeEnvironments envs) = mergeEnvironments envs"
  using mergeEnvironments_entries[of _ envs] by (simp add: nonEmptyEntries_def filter_id_conv)

lemma nested_merge_map_of:
  "map_of (mergeEnvironments [mergeEnvironments xs, y]) =
     map_of (rev (nonEmptyEntries (concat xs))) ++ map_of (rev (nonEmptyEntries y))"
proof -
  have "map_of (rev (mergeEnvironments xs)) = map_of (mergeEnvironments xs)"
    by (rule map_of_rev_distinct) (rule mergeEnvironments_distinct)
  then show ?thesis
    by (simp add: mergeEnvironments_map_of[of "[mergeEnvironments xs, y]"] nonEmptyEntries_append
        nonEmpty_merged mergeEnvironments_map_of[of xs])
qed

lemma map_of_last_nonEmpty:
  "map_of (rev l) k = Some w \<Longrightarrow> \<not> isSkipped w \<Longrightarrow> map_of (rev (nonEmptyEntries l)) k = Some w"
proof -
  assume a: "map_of (rev l) k = Some w" "\<not> isSkipped w"
  have "rev (nonEmptyEntries l) = filter (case_prod (\<lambda>k v. \<not> isSkipped v)) (rev l)"
    by (simp add: nonEmptyEntries_def rev_filter case_prod_unfold)
  with map_of_filter_in[of "rev l" k w "\<lambda>k v. \<not> isSkipped v"] a show ?thesis by simp
qed

lemma map_of_skipped_last:
  "map_of (rev l) k = Some w \<Longrightarrow> isSkipped w \<Longrightarrow> map_of (rev (nonEmptyEntries [(k, w)])) k = None"
  by (simp add: nonEmptyEntries_def)

lemma loadEnvironmentSources_config:
  "bitbucketVariables config = Some vars \<Longrightarrow>
   \<exists>pre. loadEnvironmentSources config processEnv loadEnvFile cwd envFile = pre @ [vars]"
  by (simp add: loadEnvironmentSources_def Let_def)

lemma stepEnvironment_map_of:
  "map_of (stepEnvironment config processEnv loadEnvFile cwd now gen options step) =
     map_of (rev (nonEmptyEntries (concat
        (loadEnvironmentSources (environmentConfig config) processEnv loadEnvFile cwd (opt_envFile options)))))
     ++ map_of (rev (nonEmptyEntries
        (getBitbucketVariables (environmentConfig config) (localPipelineContext cwd now options) gen)))"
  by (simp add: stepEnvironment_def stepContainerEnvironment_def createExecutionContext_def Let_def
      loadEnvironment_def nested_merge_map_of)

lemma environmentSources_map_of:
  "map_of (mergeEnvironments (environmentSources config processEnv loadEnvFile cwd now gen options)) =
     map_of (rev (nonEmptyEntries (concat
        (loadEnvironmentSources (environmentConfig config) processEnv loadEnvFile cwd (opt_envFile options)))))
     ++ map_of (rev (nonEmptyEntries (systemVariables (localPipelineContext cwd now options) gen)))"
  by (simp add: mergeEnvironments_map_of environmentSources_def nonEmptyEntries_append)

lemma stepEnvironment_is_merge:
  assumes "\<not> overridesReserved (environmentConfig config) k"
  shows "map_of (stepEnvironment config processEnv loadEnvFile cwd now gen options step) k =
         map_of (mergeEnvironments (environmentSources config processEnv loadEnvFile cwd now gen options)) k"
proof -
  let ?cfg = "environmentConfig config"
  let ?ctx = "localPipelineContext cwd now options"
  let ?srcs = "loadEnvironmentSources ?cfg processEnv loadEnvFile cwd (opt_envFile options)"
  let ?L = "map_of (rev (nonEmptyEntries (concat ?srcs)))"
  let ?lit = "systemVariables ?ctx gen"
  let ?bv = "getBitbucketVariables ?cfg ?ctx gen"
  have lit: "map_of (rev (nonEmptyEntries ?lit)) k =
     (case map_of ?lit k of None \<Rightarrow> None | Some v \<Rightarrow> if isSkipped v then None else Some v)"
    by (rule nonEmpty_map_of_distinct) (rule systemVariables_distinct)
  have bv: "map_of (rev (nonEmptyEntries ?bv)) k =
     (case map_of ?bv k of None \<Rightarrow> None | Some v \<Rightarrow> if isSkipped v then None else Some v)"
    by (rule nonEmpty_map_of_distinct) (rule getBitbucketVariables_distinct)
  have goal: "(?L ++ map_of (rev (nonEmptyEntries ?bv))) k = (?L ++ map_of (rev (nonEmptyEntries ?lit))) k"
  proof (cases "bitbucketVariables ?cfg")
    case None
    then have "?bv = ?lit" by (simp add: getBitbucketVariables_def)
    then show ?thesis by simp
  next
    case (Some vars)
    have m: "map_of ?bv k = (map_of ?lit ++ map_of (rev vars)) k"
      using Some by (simp add: getBitbucketVariables_map_of)
    show ?thesis
    proof (cases "map_of (rev vars) k")
      case None
      with m have "map_of ?bv k = map_of ?lit k" by (simp add: map_add_def)
      with lit bv show ?thesis by (simp add: map_add_def)
    next
      case (Some w)
      then have "k \<in> fst ` set vars"
        using map_of_SomeD[of "rev vars" k w] by (force simp: image_iff)
      with assms \<open>bitbucketVariables ?cfg = Some vars\<close> have "k \<notin> set reservedNames"
        by (simp add: overridesReserved_def)
      then have "k \<notin> fst ` set ?lit" using systemVariables_keys[of ?ctx gen] by (metis set_map)
      then have litNone: "map_of ?lit k = None" by (rule map_of_NoneI)
      from m Some have bvw: "map_of ?bv k = Some w" by simp
      obtain pre where pre: "?srcs = pre @ [vars]"
        using loadEnvironmentSources_config[OF \<open>bitbucketVariables ?cfg = Some vars\<close>] by blast
      have L: "?L k = (map_of (rev (nonEmptyEntries (concat pre))) ++ map_of (rev (nonEmptyEntries vars))) k"
        by (simp add: pre nonEmptyEntries_append)
      show ?thesis
      proof (cases "isSkipped w")
        case True
        with bv bvw lit litNone show ?thesis by (simp add: map_add_def)
      next
        case False
        from map_of_last_nonEmpty[OF Some False] L have "?L k = Some w" by simp
        with bv bvw lit litNone False show ?thesis by (simp add: map_add_def)
      qed
    qed
  qed
  show ?thesis
    unfolding stepEnvironment_map_of environmentSources_map_of by (rule goal)
qed

lemma merge_highest_source:
  assumes "srcs = pre @ e # post" and "distinct (map fst e)" and "(k, v) \<in> set e"
    and "\<not> isSkipped v" and "\<forall>e' \<in> set post. \<forall>w. (k, w) \<in> set e' \<longrightarrow> isSkipped w"
  shows "map_of (mergeEnvironments srcs) k = Some v"
proof -
  have post: "map_of (rev (nonEmptyEntries (concat post))) k = None"
    using assms(5) by (rule map_of_no_key_concat)
  have "map_of e k = Some v" using assms(2,3) by simp
  then have e: "map_of (rev (nonEmptyEntries e)) k = Some v"
    using assms(4) by (simp add: nonEmpty_map_of_distinct[OF assms(2)])
  show ?thesis
    by (simp add: mergeEnvironments_map_of assms(1) nonEmptyEntries_append map_add_def post e)
qed

lemma merge_no_source:
  assumes "\<forall>e \<in> set srcs. \<forall>w. (k, w) \<in> set e \<longrightarrow> isSkipped w"
  shows "map_of (mergeEnvironments srcs) k = None"
  using map_of_no_key_concat[OF assms] by (simp add: mergeEnvironments_map_of)

lemma merge_skip_source:
  assumes "\<forall>w. (k, w) \<in> set e \<longrightarrow> isSkipped w"
  shows "map_of (mergeEnvironments (xs @ e # ys)) k = map_of (mergeEnvironments (xs @ ys)) k"
  using map_of_no_key[OF assms]
  by (simp add: mergeEnvironments_map_of nonEmptyEntries_append map_add_def split: option.split)

text \<open>
  Claim C10: \<^verbatim>\<open>mergeEnvironments\<close> never binds a key to the empty string, to
  \<^verbatim>\<open>null\<close> or to \<^verbatim>\<open>undefined\<close>; a source whose values for a key are all empty,
  wherever it stands among the sources, leaves the binding of that key as it is
  without that source (it neither overrides nor removes it); and a key that only
  ever gets such values is absent from the result.
\<close>

theorem mergeEnvironments_skips_empty:
  "(\<forall>p \<in> set (mergeEnvironments envs). snd p \<noteq> Str [] \<and> snd p \<noteq> Null \<and> snd p \<noteq> Undefined)
   \<and> ((\<forall>w. (k, w) \<in> set e \<longrightarrow> w = Str [] \<or> w = Null \<or> w = Undefined) \<longrightarrow>
        map_of (mergeEnvironments (xs @ e # ys)) k = map_of (mergeEnvironments (xs @ ys)) k)
   \<and> ((\<forall>e \<in> set envs. \<forall>w. (k, w) \<in> set e \<longrightarrow> w = Str [] \<or> w = Null \<or> w = Undefined) \<longrightarrow>
        k \<notin> fst ` set (mergeEnvironments envs))"
proof (intro conjI impI ballI)
  fix p assume "p \<in> set (mergeEnvironments envs)"
  then have "\<not> isSkipped (snd p)" by (rule mergeEnvironments_entries)
  then show "snd p \<noteq> Str []" "snd p \<noteq> Null" "snd p \<noteq> Undefined" by (auto simp: isSkipped_def)
next
  assume "\<forall>w. (k, w) \<in> set e \<longrightarrow> w = Str [] \<or> w = Null \<or> w = Undefined"
  then have "\<forall>w. (k, w) \<in> set e \<longrightarrow> isSkipped w" by (auto simp: isSkipped_def)
  then show "map_of (mergeEnvironments (xs @ e # ys)) k = map_of (mergeEnvironments (xs @ ys)) k"
    by (rule merge_skip_source)
next
  assume "\<forall>e \<in> set envs. \<forall>w. (k, w) \<in> set e \<longrightarrow> w = Str [] \<or> w = Null \<or> w = Undefined"
  then have "\<forall>e \<in> set envs. \<forall>w. (k, w) \<in> set e \<longrightarrow> isSkipped w" by (auto simp: isSkipped_def)
  then have "map_of (mergeEnvironments envs) k = None" by (rule merge_no_source)
  then show "k \<notin> fst ` set (mergeEnvironments envs)" by (simp add: map_of_eq_None_iff)
qed

text \<open>
  Claim C2, as the code has it.  The environment of a step's container is built from
  six sources, in this order: the process environment, \<^verbatim>\<open><cwd>/.env\<close>, the user's
  env file, \<^verbatim>\<open><cwd>/.env.pipelines\<close>, the runner configuration's default variables
  and the computed system variables; step-local variables are not a source (the
  statement holds for every step).  For a key that is not a reserved name bound by
  the configuration's defaults: the value is that of the last source that binds the
  key to a non-empty value, whatever later sources bind it to empty values; the key
  is absent when no source binds it to a non-empty value; and a reserved name whose
  computed value is non-empty has that value.
\<close>

theorem stepEnvironment_precedence:
  assumes "\<not> overridesReserved (environmentConfig config) k"
  shows "(\<forall>pre e post v.
            environmentSources config processEnv loadEnvFile cwd now gen options = pre @ e # post
            \<and> distinct (map fst e) \<and> (k, v) \<in> set e \<and> \<not> isSkipped v
            \<and> (\<forall>e' \<in> set post. \<forall>w. (k, w) \<in> set e' \<longrightarrow> isSkipped w)
            \<longrightarrow> map_of (stepEnvironment config processEnv loadEnvFile cwd now gen options step) k = Some v)
     \<and> ((\<forall>e \<in> set (environmentSources config processEnv loadEnvFile cwd now gen options).
            \<forall>w. (k, w) \<in> set e \<longrightarrow> isSkipped w)
          \<longrightarrow> map_of (stepEnvironment config processEnv loadEnvFile cwd now gen options step) k = None)
     \<and> (\<forall>v. (k, v) \<in> set (systemVariables (localPipelineContext cwd now options) gen) \<and> \<not> isSkipped v
          \<longrightarrow> map_of (stepEnvironment config processEnv loadEnvFile cwd now gen options step) k = Some v)"
proof (intro conjI allI impI)
  fix pre e post v
  assume a: "environmentSources config processEnv loadEnvFile cwd now gen options = pre @ e # post
            \<and> distinct (map fst e) \<and> (k, v) \<in> set e \<and> \<not> isSkipped v
            \<and> (\<forall>e' \<in> set post. \<forall>w. (k, w) \<in> set e' \<longrightarrow> isSkipped w)"
  then show "map_of (stepEnvironment config processEnv loadEnvFile cwd now gen options step) k = Some v"
    using merge_highest_source[of _ pre e post k v] stepEnvironment_is_merge[OF assms] by simp
next
  assume "\<forall>e \<in> set (environmentSources config processEnv loadEnvFile cwd now gen options).
            \<forall>w. (k, w) \<in> set e \<longrightarrow> isSkipped w"
  then show "map_of (stepEnvironment config processEnv loadEnvFile cwd now gen options step) k = None"
    using merge_no_source stepEnvironment_is_merge[OF assms] by simp
next
  fix v
  let ?lit = "systemVariables (localPipelineContext cwd now options) gen"
  assume a: "(k, v) \<in> set ?lit \<and> \<not> isSkipped v"
  have "environmentSources config processEnv loadEnvFile cwd now gen options =
        loadEnvironmentSources (environmentConfig config) processEnv loadEnvFile cwd (opt_envFile options)
        @ ?lit # []"
    by (simp add: environmentSources_def)
  from merge_highest_source[OF this systemVariables_distinct] a
  show "map_of (stepEnvironment config processEnv loadEnvFile cwd now gen options step) k = Some v"
    using stepEnvironment_is_merge[OF assms] by simp
qed

lemma example_sources:
  "environmentSources exampleConfig exampleProcessEnv exampleFiles ''/w/proj'' 1700000000000
      exampleGenerated exampleOptions
   = [exampleProcessEnv] @ exampleDotEnv # [[(''DEPLOY_TARGET'', Str ''staging'')],
        systemVariables (localPipelineContext ''/w/proj'' 1700000000000 exampleOptions) exampleGenerated]"
  by (simp add: environmentSources_def loadEnvironmentSources_def exampleConfig_def exampleFiles_def
      exampleOptions_def pathJoin_def)

text \<open>Witness for C10: two sources, the second with empty values for both keys.\<close>

theorem mergeEnvironments_skips_empty_witness:
  "snd (''A'', Str ''1'') \<noteq> Str []
   \<and> map_of (mergeEnvironments ([[(''A'', Str ''1''), (''B'', Str [])]] @ [(''A'', Str []), (''B'', Null)] # [])) ''A''
        = map_of (mergeEnvironments ([[(''A'', Str ''1''), (''B'', Str [])]] @ [])) ''A''
   \<and> map_of (mergeEnvironments [[(''A'', Str ''1''), (''B'', Str [])]]) ''A'' = Some (Str ''1'')
   \<and> ''B'' \<notin> fst ` set (mergeEnvironments [[(''A'', Str ''1''), (''B'', Str [])], [(''A'', Str []), (''B'', Null)]])"
proof -
  let ?x = "[(''A'', Str ''1''), (''B'', Str [])]"
  let ?e = "[(''A'', Str []), (''B'', Null)]"
  have m: "(''A'', Str ''1'') \<in> set (mergeEnvironments [?x, ?e])"
    by (simp add: mergeEnvironments_def mergeEntry_def)
  have h2: "\<forall>w. (''A'', w) \<in> set ?e \<longrightarrow> w = Str [] \<or> w = Null \<or> w = Undefined"
    by simp
  have h3: "\<forall>e \<in> set [?x, ?e]. \<forall>w. (''B'', w) \<in> set e \<longrightarrow> w = Str [] \<or> w = Null \<or> w = Undefined"
    by simp
  have v: "map_of (mergeEnvironments [?x]) ''A'' = Some (Str ''1'')"
    by (simp add: mergeEnvironments_def mergeEntry_def)
  from mergeEnvironments_skips_empty[of "[?x, ?e]" "''A''" ?e "[?x]" "[]"] m h2
  have c1: "snd (''A'', Str ''1'') \<noteq> Str []"
    and c2: "map_of (mergeEnvironments ([?x] @ ?e # [])) ''A'' = map_of (mergeEnvironments ([?x] @ [])) ''A''"
    by blast+
  from mergeEnvironments_skips_empty[of "[?x, ?e]" "''B''" "[]" "[]" "[]"] h3
  have c3: "''B'' \<notin> fst ` set (mergeEnvironments [?x, ?e])" by blast
  from c1 c2 c3 v show ?thesis by simp
qed

lemma example_environment:
  "stepEnvironment exampleConfig exampleProcessEnv exampleFiles ''/w/proj'' 1700000000000
      exampleGenerated exampleOptions exampleStep =
   [(''APP_MODE'', Str ''ci''), (''PATH'', Str ''/usr/bin''), (''BITBUCKET_TAG'', Str ''v1.0''),
    (''DEPLOY_TARGET'', Str ''staging''),
    (''BITBUCKET_WORKSPACE'', Str ''local-workspace''),
    (''BITBUCKET_REPO_SLUG'', Str ''proj''),
    (''BITBUCKET_REPO_UUID'', Str ''{00000000-0000-0000-0000-000000000000}''),
    (''BITBUCKET_REPO_FULL_NAME'', Str ''local-workspace/proj''),
    (''BITBUCKET_BUILD_NUMBER'', Str ''1700000000000''),
    (''BITBUCKET_COMMIT'', Str ''local-commit''),
    (''BITBUCKET_BRANCH'', Str ''local''),
    (''BITBUCKET_PIPELINE_UUID'', Str ''{p}''),
    (''BITBUCKET_STEP_TRIGGERER_UUID'', Str ''{t}''),
    (''BITBUCKET_CLONE_DIR'', Str ''/opt/atlassian/pipelines/agent/build''),
    (''BITBUCKET_PARALLEL_STEP'', Str ''false''),
    (''BITBUCKET_PARALLEL_STEP_COUNT'', Str ''1''),
    (''BITBUCKET_PIPELINES_LOCAL'', Str ''true''),
    (''BBPL_EXECUTION_ID'', Str ''1700000000000-abc123''),
    (''BBPL_EXECUTION_TIME'', Str ''2023-11-14T22:13:20.000Z'')]"
  by (simp add: stepEnvironment_def stepContainerEnvironment_def createExecutionContext_def
      loadEnvironment_def loadEnvironmentSources_def getBitbucketVariables_def objectAssign_def
      systemVariables_def localPipelineContext_def mergeEnvironments_def mergeEntry_def
      exampleConfig_def exampleProcessEnv_def exampleFiles_def exampleDotEnv_def
      exampleGenerated_def exampleOptions_def pathJoin_def basename_def orElse_def
      toString.simps digitChar_def Let_def)

text \<open>
  The claim C2 as stated fails on the concrete run: the step-local variable
  \<^verbatim>\<open>FOO\<close> is not in the container's environment although the right-biased merge
  of the seven sources binds it, and the reserved name \<^verbatim>\<open>BITBUCKET_TAG\<close> keeps the
  value of the \<^verbatim>\<open>.env\<close> file although the system variables bind it (to the empty
  string).
\<close>

theorem stepEnvironment_precedence_counterexample:
  "map_of (stepEnvironment exampleConfig exampleProcessEnv exampleFiles ''/w/proj'' 1700000000000
             exampleGenerated exampleOptions exampleStep) ''FOO'' = None
   \<and> rightBiasedMerge (specSources exampleConfig exampleProcessEnv exampleFiles ''/w/proj''
             1700000000000 exampleGenerated exampleOptions exampleStep) ''FOO'' = Some (Str ''bar'')
   \<and> map_of (stepEnvironment exampleConfig exampleProcessEnv exampleFiles ''/w/proj'' 1700000000000
             exampleGenerated exampleOptions exampleStep) ''BITBUCKET_TAG'' = Some (Str ''v1.0'')
   \<and> rightBiasedMerge (specSources exampleConfig exampleProcessEnv exampleFiles ''/w/proj''
             1700000000000 exampleGenerated exampleOptions exampleStep) ''BITBUCKET_TAG'' = Some (Str [])"
  unfolding example_environment specSources_def example_sources
  by (simp add: rightBiasedMerge_def exampleStep_def exampleDotEnv_def exampleProcessEnv_def
      systemVariables_def map_add_def)

text \<open>Witness for C2 on the concrete run: a key won by the .env file, one won by the process environment, an absent key and a reserved name.\<close>

theorem stepEnvironment_precedence_witness:
  "map_of (stepEnvironment exampleConfig exampleProcessEnv exampleFiles ''/w/proj'' 1700000000000
          exampleGenerated exampleOptions exampleStep) ''APP_MODE'' = Some (Str ''ci'')
   \<and> map_of (stepEnvironment exampleConfig exampleProcessEnv exampleFiles ''/w/proj'' 1700000000000
          exampleGenerated exampleOptions exampleStep) ''PATH'' = Some (Str ''/usr/bin'')
   \<and> map_of (stepEnvironment exampleConfig exampleProcessEnv exampleFiles ''/w/proj'' 1700000000000
          exampleGenerated exampleOptions exampleStep) ''FOO'' = None
   \<and> map_of (stepEnvironment exampleConfig exampleProcessEnv exampleFiles ''/w/proj'' 1700000000000
          exampleGenerated exampleOptions exampleStep) ''BITBUCKET_COMMIT'' = Some (Str ''local-commit'')"
proof -
  let ?lit = "systemVariables (localPipelineContext ''/w/proj'' 1700000000000 exampleOptions) exampleGenerated"
  let ?cfgVars = "[(''DEPLOY_TARGET'', Str ''staging'')]"
  have h1: "\<not> overridesReserved (environmentConfig exampleConfig) ''APP_MODE''"
    by (simp add: overridesReserved_def reservedNames_def)
  have h1': "\<not> overridesReserved (environmentConfig exampleConfig) ''PATH''"
    by (simp add: overridesReserved_def reservedNames_def)
  have h2: "\<not> overridesReserved (environmentConfig exampleConfig) ''FOO''"
    by (simp add: overridesReserved_def reservedNames_def)
  have h3: "\<not> overridesReserved (environmentConfig exampleConfig) ''BITBUCKET_COMMIT''"
    by (simp add: overridesReserved_def exampleConfig_def)
  have src: "environmentSources exampleConfig exampleProcessEnv exampleFiles ''/w/proj''
          1700000000000 exampleGenerated exampleOptions
        = [exampleProcessEnv] @ exampleDotEnv # [?cfgVars, ?lit]"
    by (rule example_sources)
  have src': "environmentSources exampleConfig exampleProcessEnv exampleFiles ''/w/proj''
          1700000000000 exampleGenerated exampleOptions
        = [] @ exampleProcessEnv # [exampleDotEnv, ?cfgVars, ?lit]"
    using example_sources by simp
  have s1: "distinct (map fst exampleDotEnv) \<and> (''APP_MODE'', Str ''ci'') \<in> set exampleDotEnv
     \<and> \<not> isSkipped (Str ''ci'')"
    by (simp add: exampleDotEnv_def isSkipped_def)
  have s2: "\<forall>e' \<in> set [?cfgVars, ?lit]. \<forall>w. (''APP_MODE'', w) \<in> set e' \<longrightarrow> isSkipped w"
    by (simp add: systemVariables_def)
  have p1: "distinct (map fst exampleProcessEnv) \<and> (''PATH'', Str ''/usr/bin'') \<in> set exampleProcessEnv
     \<and> \<not> isSkipped (Str ''/usr/bin'')"
    by (simp add: exampleProcessEnv_def isSkipped_def)
  have p2: "\<forall>e' \<in> set [exampleDotEnv, ?cfgVars, ?lit]. \<forall>w. (''PATH'', w) \<in> set e' \<longrightarrow> isSkipped w"
    by (simp add: systemVariables_def exampleDotEnv_def isSkipped_def)
  have s3: "\<forall>e \<in> set (environmentSources exampleConfig exampleProcessEnv exampleFiles ''/w/proj''
          1700000000000 exampleGenerated exampleOptions). \<forall>w. (''FOO'', w) \<in> set e \<longrightarrow> isSkipped w"
    unfolding example_sources
    by (simp add: exampleProcessEnv_def exampleDotEnv_def systemVariables_def)
  have s4: "(''BITBUCKET_COMMIT'', Str ''local-commit'') \<in> set ?lit \<and> \<not> isSkipped (Str ''local-commit'')"
    by (simp add: systemVariables_def localPipelineContext_def isSkipped_def)
  show ?thesis
    using stepEnvironment_precedence[OF h1, of exampleProcessEnv exampleFiles "''/w/proj''"
        1700000000000 exampleGenerated exampleOptions exampleStep]
      stepEnvironment_precedence[OF h1', of exampleProcessEnv exampleFiles "''/w/proj''"
        1700000000000 exampleGenerated exampleOptions exampleStep]
      stepEnvironment_precedence[OF h2, of exampleProcessEnv exampleFiles "''/w/proj''"
        1700000000000 exampleGenerated exampleOptions exampleStep]
      stepEnvironment_precedence[OF h3, of exampleProcessEnv exampleFiles "''/w/proj''"
        1700000000000 exampleGenerated exampleOptions exampleStep]
      src src' s1 s2 p1 p2 s3 s4
    by blast
qed

section \<open>Properties of pipeline listing and selection\<close>

lemma foldl_push: "foldl (\<lambda>a key. a @ [prefix @ key]) acc ks = acc @ map (\<lambda>key. prefix @ key) ks"
  by (induction ks arbitrary: acc) simp_all

lemma pushKeys_eq:
  "pushKeys prefix record acc =
     acc @ map (\<lambda>key. prefix @ key) (case record of None \<Rightarrow> [] | Some r \<Rightarrow> objectKeys r)"
  by (simp add: pushKeys_def foldl_push split: option.split)

lemma objectKeys_length: "length (objectKeys r) = length r"
  using sum_length_filter_compl[of isArrayIndex "map fst r"] by (simp add: objectKeys_def)

lemma objectKeys_set: "set (objectKeys r) = fst ` set r"
  by (auto simp: objectKeys_def)

text \<open>
  Claim C8, as the code has it: for a loaded configuration \<^verbatim>\<open>listPipelines\<close> returns
  the label \<^verbatim>\<open>default\<close> (when a default pipeline is defined), then one label
  \<^verbatim>\<open>branches/<name>\<close> per branch pipeline, then one \<^verbatim>\<open>custom/<name>\<close> per custom
  pipeline, then one \<^verbatim>\<open>tags/<name>\<close> per tag pipeline; the names of each group come
  in \<^verbatim>\<open>Object.keys\<close> order, integer-like names first, ascending, then the rest in
  document order; the list is not sorted.  \<^verbatim>\<open>default\<close> is in the list exactly when
  a default pipeline is defined.  \<^verbatim>\<open>Object.keys\<close> lists every name of a record once.
  When the document cannot be loaded the list is empty.
\<close>

theorem listPipelines_labels:
  "listPipelines (Inr cfg) =
     (case default (pipelines cfg) of None \<Rightarrow> [] | Some p \<Rightarrow> [''default''])
     @ map (\<lambda>key. ''branches/'' @ key)
         (case branches (pipelines cfg) of None \<Rightarrow> [] | Some r \<Rightarrow>
            sort_key parseNat (filter isArrayIndex (map fst r))
            @ filter (\<lambda>key. \<not> isArrayIndex key) (map fst r))
     @ map (\<lambda>key. ''custom/'' @ key)
         (case custom (pipelines cfg) of None \<Rightarrow> [] | Some r \<Rightarrow>
            sort_key parseNat (filter isArrayIndex (map fst r))
            @ filter (\<lambda>key. \<not> isArrayIndex key) (map fst r))
     @ map (\<lambda>key. ''tags/'' @ key)
         (case tags (pipelines cfg) of None \<Rightarrow> [] | Some r \<Rightarrow>
            sort_key parseNat (filter isArrayIndex (map fst r))
            @ filter (\<lambda>key. \<not> isArrayIndex key) (map fst r))
   \<and> (''default'' \<in> set (listPipelines (Inr cfg))) = (default (pipelines cfg) \<noteq> None)
   \<and> length (objectKeys r) = length r \<and> set (objectKeys r) = fst ` set r
   \<and> listPipelines (Inl err) = []"
proof -
  have eq: "listPipelines (Inr cfg) =
     (case default (pipelines cfg) of None \<Rightarrow> [] | Some p \<Rightarrow> [''default''])
     @ map (\<lambda>key. ''branches/'' @ key) (case branches (pipelines cfg) of None \<Rightarrow> [] | Some r \<Rightarrow> objectKeys r)
     @ map (\<lambda>key. ''custom/'' @ key) (case custom (pipelines cfg) of None \<Rightarrow> [] | Some r \<Rightarrow> objectKeys r)
     @ map (\<lambda>key. ''tags/'' @ key) (case tags (pipelines cfg) of None \<Rightarrow> [] | Some r \<Rightarrow> objectKeys r)"
    by (simp add: listPipelines_def Let_def pushKeys_eq split: option.split)
  have mem: "(''default'' \<in> set (listPipelines (Inr cfg))) = (default (pipelines cfg) \<noteq> None)"
    unfolding eq by (cases "default (pipelines cfg)") auto
  have nil: "listPipelines (Inl err) = []" by (simp add: listPipelines_def)
  note eq' = eq[unfolded objectKeys_def]
  show ?thesis
    by (intro conjI) (rule eq' mem objectKeys_length objectKeys_set nil)+
qed

text \<open>
  The claim C8 as stated fails on the concrete document: the list starts with
  \<^verbatim>\<open>default\<close>, followed by \<^verbatim>\<open>branches/main\<close> and \<^verbatim>\<open>branches/develop\<close>, and is
  not sorted.  Nor is the list of the document with the branches \<^verbatim>\<open>main\<close>,
  \<^verbatim>\<open>10\<close> and \<^verbatim>\<open>2\<close>: the integer-like names come first, in numeric order.
\<close>

theorem listPipelines_sorted_counterexample:
  "listPipelines (Inr exampleDocument)
     = [''default'', ''branches/main'', ''branches/develop'', ''custom/release'', ''tags/v*'']
   \<and> \<not> sorted (listPipelines (Inr exampleDocument))
   \<and> listPipelines (Inr numberedBranchesDocument)
     = [''branches/2'', ''branches/10'', ''branches/main'']
   \<and> \<not> sorted (listPipelines (Inr numberedBranchesDocument))"
  by (simp add: listPipelines_def pushKeys_def exampleDocument_def numberedBranchesDocument_def
      objectKeys_def isArrayIndex_def isDigit_def parseNat_def)


lemma isSet_orElse: "isSet a \<Longrightarrow> orElse a [] \<noteq> [] \<and> a = Some (orElse a [])"
  by (cases a) (auto simp: isSet_def orElse_def)

lemma notSet_orElse: "\<not> isSet a \<Longrightarrow> orElse a [] = []"
  by (cases a) (auto simp: isSet_def orElse_def)

text \<open>
  What \<^verbatim>\<open>selectPipeline\<close> does, by cases on the options that are set; a looked-up
  value is an own pipeline or an inherited member.
\<close>

lemma selectPipeline_cases:
  "(isSet (opt_custom options) \<longrightarrow>
      (\<forall>c. opt_custom options = Some c \<longrightarrow>
         (case lookupPipeline (custom (pipelines config)) c of
            Some p \<Rightarrow> selectPipeline config options = Inr p
          | None \<Rightarrow> isSelectionError (selectPipeline config options))))
   \<and> (\<not> isSet (opt_custom options) \<and> isSet (opt_branch options) \<longrightarrow>
      (\<forall>b. opt_branch options = Some b \<longrightarrow>
         (case lookupPipeline (branches (pipelines config)) b of
            Some p \<Rightarrow> selectPipeline config options = Inr p
          | None \<Rightarrow>
             (case default (pipelines config) of
                Some d \<Rightarrow> selectPipeline config options = Inr (SelectedPipeline d)
              | None \<Rightarrow> isSelectionError (selectPipeline config options)))))
   \<and> (\<not> isSet (opt_custom options) \<and> \<not> isSet (opt_branch options) \<and> isSet (opt_pipeline options) \<longrightarrow>
      (if opt_pipeline options = Some ''default'' then
         (case default (pipelines config) of
            Some d \<Rightarrow> selectPipeline config options = Inr (SelectedPipeline d)
          | None \<Rightarrow> isSelectionError (selectPipeline config options))
       else isSelectionError (selectPipeline config options)))
   \<and> (\<not> isSet (opt_custom options) \<and> \<not> isSet (opt_branch options) \<and> \<not> isSet (opt_pipeline options) \<longrightarrow>
      (case default (pipelines config) of
         Some d \<Rightarrow> selectPipeline config options = Inr (SelectedPipeline d)
       | None \<Rightarrow> isSelectionError (selectPipeline config options)))"
proof (intro conjI impI allI)
  fix c assume "isSet (opt_custom options)" "opt_custom options = Some c"
  then have "orElse (opt_custom options) [] = c" "c \<noteq> []" using isSet_orElse by fastforce+
  then show "case lookupPipeline (custom (pipelines config)) c of
            Some p \<Rightarrow> selectPipeline config options = Inr p
          | None \<Rightarrow> isSelectionError (selectPipeline config options)"
    by (simp add: selectPipeline_def Let_def isSelectionError_def split: option.split)
next
  fix b assume a: "\<not> isSet (opt_custom options) \<and> isSet (opt_branch options)" "opt_branch options = Some b"
  then have "orElse (opt_custom options) [] = []" "orElse (opt_branch options) [] = b" "b \<noteq> []"
    using isSet_orElse notSet_orElse by fastforce+
  then show "case lookupPipeline (branches (pipelines config)) b of
            Some p \<Rightarrow> selectPipeline config options = Inr p
          | None \<Rightarrow>
             (case default (pipelines config) of
                Some d \<Rightarrow> selectPipeline config options = Inr (SelectedPipeline d)
              | None \<Rightarrow> isSelectionError (selectPipeline config options))"
    by (simp add: selectPipeline_def Let_def isSelectionError_def split: option.split)
next
  assume a: "\<not> isSet (opt_custom options) \<and> \<not> isSet (opt_branch options) \<and> isSet (opt_pipeline options)"
  then have "orElse (opt_custom options) [] = []" "orElse (opt_branch options) [] = []"
    "orElse (opt_pipeline options) [] \<noteq> []" "opt_pipeline options = Some (orElse (opt_pipeline options) [])"
    using isSet_orElse notSet_orElse by fastforce+
  then show "if opt_pipeline options = Some ''default'' then
         (case default (pipelines config) of
            Some d \<Rightarrow> selectPipeline config options = Inr (SelectedPipeline d)
          | None \<Rightarrow> isSelectionError (selectPipeline config options))
       else isSelectionError (selectPipeline config options)"
    by (auto simp: selectPipeline_def Let_def isSelectionError_def split: option.split)
next
  assume a: "\<not> isSet (opt_custom options) \<and> \<not> isSet (opt_branch options) \<and> \<not> isSet (opt_pipeline options)"
  then have "orElse (opt_custom options) [] = []" "orElse (opt_branch options) [] = []"
    "orElse (opt_pipeline options) [] = []"
    using notSet_orElse by fastforce+
  then show "case default (pipelines config) of
         Some d \<Rightarrow> selectPipeline config options = Inr (SelectedPipeline d)
       | None \<Rightarrow> isSelectionError (selectPipeline config options)"
    by (simp add: selectPipeline_def Let_def isSelectionError_def split: option.split)
qed

text \<open>The intents of scenario S6 select as the specification says.\<close>

lemma selectPipeline_S6:
  "selectPipeline exampleDocument (selection (Some ''release'') (Some ''main'') None)
     = Inr (SelectedPipeline [StepItem (echoStep ''echo release'')])
   \<and> selectPipeline exampleDocument (selection None (Some ''feature/x'') None)
     = Inr (SelectedPipeline [StepItem (echoStep ''echo default'')])
   \<and> isSelectionError (selectPipeline exampleDocument (selection None None (Some ''feature'')))
   \<and> isSelectionError (selectPipeline exampleDocument (selection (Some ''nightly'') (Some ''main'') None))"
  by (simp add: selectPipeline_def lookupPipeline_def selection_def exampleDocument_def
      objectPrototypeNames_def isSelectionError_def orElse_def Let_def)

text \<open>
  Claim C5 at the failing inputs.  The document has the custom pipeline
  \<^verbatim>\<open>release\<close>, the branch pipelines \<^verbatim>\<open>main\<close> and \<^verbatim>\<open>develop\<close> and a default
  pipeline.  With \<^verbatim>\<open>custom = constructor\<close> there is no custom pipeline of that
  name, and \<^verbatim>\<open>selectPipeline\<close> throws no error: it returns the inherited member
  \<^verbatim>\<open>constructor\<close> of the record.  With \<^verbatim>\<open>branch = toString\<close> there is no branch
  pipeline of that name, and \<^verbatim>\<open>selectPipeline\<close> does not fall back to the default
  pipeline: it returns the inherited member \<^verbatim>\<open>toString\<close>.
\<close>

theorem selectPipeline_inherited_member:
  "ownPipeline (custom (pipelines exampleDocument)) ''constructor'' = None
   \<and> selectPipeline exampleDocument (selection (Some ''constructor'') None None)
       = Inr (InheritedMember ''constructor'')
   \<and> \<not> isSelectionError (selectPipeline exampleDocument (selection (Some ''constructor'') None None))
   \<and> ownPipeline (branches (pipelines exampleDocument)) ''toString'' = None
   \<and> default (pipelines exampleDocument) = Some [StepItem (echoStep ''echo default'')]
   \<and> selectPipeline exampleDocument (selection None (Some ''toString'') None)
       = Inr (InheritedMember ''toString'')"
  by (simp add: selectPipeline_def lookupPipeline_def ownPipeline_def selection_def
      exampleDocument_def objectPrototypeNames_def isSelectionError_def orElse_def Let_def)

section \<open>Properties of the document loader\<close>

lemma transformStep_fields:
  assumes "transformStep step = Inr r"
  shows "getProp r ''maxTime'' = jsOr (getProp step ''max-time'') (getProp step ''maxTime'')"
    and "getProp r ''afterScript'' = jsOr (getProp step ''after-script'') (getProp step ''afterScript'')"
  using assms by (auto simp: transformStep_def split: if_splits sum.splits)

lemma transformImage_runAsUser:
  assumes "transformImage img = Inr r"
  shows "getProp r ''runAsUser'' = jsOr (getProp img ''run-as-user'') (getProp img ''runAsUser'')"
  using assms by (cases img) (auto simp: jsOr_def split: if_splits)

lemma transformOptions_maxTime:
  assumes "transformOptions opts = Inr r"
  shows "getProp r ''maxTime'' = jsOr (getProp opts ''max-time'') (getProp opts ''maxTime'')"
  using assms by (auto simp: transformOptions_def split: if_splits)

text \<open>
  Claim C6, as the code has it: in a transformed step \<^verbatim>\<open>maxTime\<close> is the value of
  \<^verbatim>\<open>max-time\<close> when that value is truthy and the value of \<^verbatim>\<open>maxTime\<close> otherwise;
  \<^verbatim>\<open>afterScript\<close> is the value of \<^verbatim>\<open>after-script\<close> when truthy and of
  \<^verbatim>\<open>afterScript\<close> otherwise; in a transformed image \<^verbatim>\<open>runAsUser\<close> is the value of
  \<^verbatim>\<open>run-as-user\<close> when truthy and of \<^verbatim>\<open>runAsUser\<close> otherwise; the global options'
  \<^verbatim>\<open>maxTime\<close> likewise.  So when both forms are present the hyphenated form wins,
  unless its value is falsy (absent, \<^verbatim>\<open>null\<close>, \<^verbatim>\<open>false\<close>, \<^verbatim>\<open>0\<close> or the empty
  string).
\<close>

theorem transform_hyphen_precedence:
  "(transformStep step = Inr r \<longrightarrow>
      getProp r ''maxTime'' =
        (if truthy (getProp step ''max-time'') then getProp step ''max-time''
         else getProp step ''maxTime'')
      \<and> getProp r ''afterScript'' =
        (if truthy (getProp step ''after-script'') then getProp step ''after-script''
         else getProp step ''afterScript''))
   \<and> (transformImage img = Inr r' \<longrightarrow>
      getProp r' ''runAsUser'' =
        (if truthy (getProp img ''run-as-user'') then getProp img ''run-as-user''
         else getProp img ''runAsUser''))
   \<and> (transformOptions opts = Inr r'' \<longrightarrow>
      getProp r'' ''maxTime'' =
        (if truthy (getProp opts ''max-time'') then getProp opts ''max-time''
         else getProp opts ''maxTime''))"
  using transformStep_fields[of step r] transformImage_runAsUser[of img r']
    transformOptions_maxTime[of opts r'']
  by (simp add: jsOr_def)

lemma bothFormsStep_result:
  "transformStep bothFormsStep =
     Inr (Obj [(''name'', Str ''build''),
           (''image'',
            Obj [(''name'', Str ''node:18''), (''username'', Undefined),
                 (''password'', Undefined), (''aws'', Undefined),
                 (''runAsUser'', Num 1000)]),
           (''script'', Arr [Str ''make'']), (''size'', Undefined),
           (''maxTime'', Num 5), (''caches'', Undefined),
           (''artifacts'', Undefined), (''services'', Undefined),
           (''trigger'', Undefined), (''condition'', Undefined),
           (''afterScript'', Arr [Str ''echo hyphen'']),
           (''variables'', Undefined), (''deployment'', Undefined)])"
  by (simp add: transformStep_def bothFormsStep_def bothFormsImage_def jsOr_def toArray_def)

lemma bothFormsImage_result:
  "transformImage bothFormsImage =
     Inr (Obj [(''name'', Str ''node:18''), (''username'', Undefined),
               (''password'', Undefined), (''aws'', Undefined), (''runAsUser'', Num 1000)])"
  by (simp add: bothFormsImage_def jsOr_def)

text \<open>
  The claim C6 as stated fails on a step and an image that give both forms: the
  canonical model holds the hyphenated values (\<^verbatim>\<open>max-time: 5\<close>, the
  \<^verbatim>\<open>after-script\<close> list, \<^verbatim>\<open>run-as-user: 1000\<close>), not the camelCase ones.
\<close>

theorem transform_camel_wins_counterexample:
  "resultField (transformStep bothFormsStep) ''maxTime'' = Some (Num 5)
   \<and> getProp bothFormsStep ''max-time'' = Num 5 \<and> getProp bothFormsStep ''maxTime'' = Num 10
   \<and> resultField (transformStep bothFormsStep) ''afterScript'' = Some (Arr [Str ''echo hyphen''])
   \<and> getProp bothFormsStep ''afterScript'' = Arr [Str ''echo camel'']
   \<and> resultField (transformImage bothFormsImage) ''runAsUser'' = Some (Num 1000)
   \<and> getProp bothFormsImage ''runAsUser'' = Num 2000"
  unfolding bothFormsStep_result bothFormsImage_result
  by (simp add: resultField_def bothFormsStep_def bothFormsImage_def)

text \<open>Witness for C6: the same step and image, and options that give only the
  camelCase form.\<close>

theorem transform_hyphen_precedence_witness:
  "resultField (transformStep bothFormsStep) ''maxTime'' = Some (getProp bothFormsStep ''max-time'')
   \<and> resultField (transformStep bothFormsStep) ''afterScript''
       = Some (getProp bothFormsStep ''after-script'')
   \<and> resultField (transformImage bothFormsImage) ''runAsUser''
       = Some (getProp bothFormsImage ''run-as-user'')
   \<and> resultField (transformOptions (Obj [(''maxTime'', Num 30)])) ''maxTime'' = Some (Num 30)"
proof -
  have t: "truthy (getProp bothFormsStep ''max-time'')"
    "truthy (getProp bothFormsStep ''after-script'')"
    by (simp_all add: bothFormsStep_def)
  have i: "truthy (getProp bothFormsImage ''run-as-user'')" by (simp add: bothFormsImage_def)
  have o: "transformOptions (Obj [(''maxTime'', Num 30)])
     = Inr (Obj [(''maxTime'', Num 30), (''size'', Undefined), (''docker'', Undefined)])"
    by (simp add: transformOptions_def jsOr_def)
  have o': "\<not> truthy (getProp (Obj [(''maxTime'', Num 30)]) ''max-time'')"
    "getProp (Obj [(''maxTime'', Num 30)]) ''maxTime'' = Num 30" by simp_all
  obtain r where r: "transformStep bothFormsStep = Inr r" using bothFormsStep_result by blast
  obtain r' where r': "transformImage bothFormsImage = Inr r'" using bothFormsImage_result by blast
  obtain r'' where r'': "transformOptions (Obj [(''maxTime'', Num 30)]) = Inr r''" using o by blast
  from transform_hyphen_precedence[of bothFormsStep r bothFormsImage r' "Obj [(''maxTime'', Num 30)]" r'']
    r r' r'' t i o'
  show ?thesis by (simp add: resultField_def)
qed

text \<open>
  Claim C7 at the failing input.  A bare list is promoted to an object with the
  single property \<^verbatim>\<open>paths\<close>: \<^verbatim>\<open>download\<close> is \<^verbatim>\<open>undefined\<close>, not \<^verbatim>\<open>true\<close>.  The
  object form of the same artifacts gets \<^verbatim>\<open>download: true\<close>.
\<close>

theorem transformArtifacts_list_no_download:
  "transformArtifacts (Arr xs) = Obj [(''paths'', Arr xs)]
   \<and> getProp (transformArtifacts (Arr xs)) ''download'' = Undefined
   \<and> resultField (transformStep listArtifactsStep) ''artifacts''
       = Some (Obj [(''paths'', Arr [Str ''dist/**''])])
   \<and> resultField (transformStep objectArtifactsStep) ''artifacts''
       = Some (Obj [(''paths'', Arr [Str ''dist/**'']), (''download'', Bool True)])"
  by (simp add: resultField_def transformStep_def listArtifactsStep_def objectArtifactsStep_def
      jsOr_def toArray_def)

section \<open>Properties of the scheduler\<close>

lemma executeStep_fulfilled:
  "\<exists>t r. executeStep w d s started = (Fulfilled t r, started @ [stepLabel s])
         \<and> success r = (exitCode r = 0)"
  by (cases "w (length started) s") (auto simp: executeStep_def Let_def stepLabel_def)

lemma startSteps_fulfilled:
  "\<exists>ps. startSteps w d ss i started = (ps, started @ map stepLabel ss)
        \<and> length ps = length ss
        \<and> firstRejection ps = None
        \<and> (\<forall>r \<in> set (fulfilledValues ps). success r = (exitCode r = 0))
        \<and> length (fulfilledValues ps) = length ss"
proof (induction ss arbitrary: i started)
  case Nil
  show ?case by simp
next
  case (Cons s ss)
  obtain t r where r: "executeStep w d s started = (Fulfilled t r, started @ [stepLabel s])"
    "success r = (exitCode r = 0)"
    using executeStep_fulfilled by blast
  obtain ps where ps: "startSteps w d ss (i + 1) (started @ [stepLabel s])
      = (ps, (started @ [stepLabel s]) @ map stepLabel ss)"
    "length ps = length ss" "firstRejection ps = None"
    "\<forall>r \<in> set (fulfilledValues ps). success r = (exitCode r = 0)"
    "length (fulfilledValues ps) = length ss"
    using Cons.IH by blast
  show ?case using r ps by simp
qed

lemma executeParallelSteps_fulfilled:
  "\<exists>t rs. executeParallelSteps w d par started = (Fulfilled t rs, started @ map stepLabel (steps par))
         \<and> length rs = length (steps par)
         \<and> (\<forall>r \<in> set rs. success r = (exitCode r = 0))"
proof -
  obtain ps where ps: "startSteps w d (steps par) 0 started = (ps, started @ map stepLabel (steps par))"
    "firstRejection ps = None"
    "\<forall>r \<in> set (fulfilledValues ps). success r = (exitCode r = 0)"
    "length (fulfilledValues ps) = length (steps par)"
    using startSteps_fulfilled by blast
  then show ?thesis
    by (simp add: executeParallelSteps_def promiseAll_def promiseAllSettled_def)
qed

lemma failFast_no_effect:
  "executeParallelSteps w d (par\<lparr>failFast := Some True\<rparr>) started
     = executeParallelSteps w d (par\<lparr>failFast := ff\<rparr>) started"
proof -
  obtain ps where ps: "startSteps w d (steps par) 0 started = (ps, started @ map stepLabel (steps par))"
    "firstRejection ps = None"
    using startSteps_fulfilled by blast
  then show ?thesis
    by (simp add: executeParallelSteps_def promiseAll_def promiseAllSettled_def)
qed

lemma pipelineLoop_append:
  "pipelineLoop w d pre acc started = (r0, started0) \<Longrightarrow> exec_success r0 \<Longrightarrow>
   pipelineLoop w d (pre @ rest) acc started = pipelineLoop w d rest (exec_steps r0) started0"
proof (induction pre arbitrary: acc started)
  case Nil
  then show ?case by auto
next
  case (Cons item pre)
  show ?case
  proof (cases item)
    case (StepItem s)
    obtain t r where r: "executeStep w d s started = (Fulfilled t r, started @ [stepLabel s])"
      using executeStep_fulfilled by blast
    show ?thesis
    proof (cases "success r")
      case True
      with Cons.prems StepItem r
      have "pipelineLoop w d pre (acc @ [r]) (started @ [stepLabel s]) = (r0, started0)" by simp
      from Cons.IH[OF this Cons.prems(2)] StepItem r True show ?thesis by simp
    next
      case False
      with Cons.prems StepItem r show ?thesis by auto
    qed
  next
    case (ParallelItem par)
    obtain t rs where rs: "executeParallelSteps w d par started
        = (Fulfilled t rs, started @ map stepLabel (steps par))"
      using executeParallelSteps_fulfilled by blast
    show ?thesis
    proof (cases "filter (\<lambda>r. \<not> success r) rs")
      case Nil
      with Cons.prems ParallelItem rs
      have "pipelineLoop w d pre (acc @ rs) (started @ map stepLabel (steps par)) = (r0, started0)"
        by simp
      from Cons.IH[OF this Cons.prems(2)] ParallelItem rs Nil show ?thesis by simp
    next
      case (Cons f fs)
      with Cons.prems ParallelItem rs show ?thesis by auto
    qed
  qed
qed

lemma pipelineLoop_success_started:
  "pipelineLoop w d pre acc started = (r0, started0) \<Longrightarrow> exec_success r0 \<Longrightarrow>
   started0 = started @ map stepLabel (concat (map itemSteps pre))
   \<and> length (exec_steps r0) = length acc + length (concat (map itemSteps pre))"
proof (induction pre arbitrary: acc started)
  case Nil
  then show ?case by auto
next
  case (Cons item pre)
  show ?case
  proof (cases item)
    case (StepItem s)
    obtain t r where r: "executeStep w d s started = (Fulfilled t r, started @ [stepLabel s])"
      using executeStep_fulfilled by blast
    show ?thesis
    proof (cases "success r")
      case True
      with Cons.prems StepItem r
      have "pipelineLoop w d pre (acc @ [r]) (started @ [stepLabel s]) = (r0, started0)" by simp
      from Cons.IH[OF this Cons.prems(2)] StepItem show ?thesis by simp
    next
      case False
      with Cons.prems StepItem r show ?thesis by auto
    qed
  next
    case (ParallelItem par)
    obtain t rs where rs: "executeParallelSteps w d par started
        = (Fulfilled t rs, started @ map stepLabel (steps par))" "length rs = length (steps par)"
      using executeParallelSteps_fulfilled by blast
    show ?thesis
    proof (cases "filter (\<lambda>r. \<not> success r) rs")
      case Nil
      with Cons.prems ParallelItem rs
      have "pipelineLoop w d pre (acc @ rs) (started @ map stepLabel (steps par)) = (r0, started0)"
        by simp
      from Cons.IH[OF this Cons.prems(2)] ParallelItem rs(2) show ?thesis by simp
    next
      case (Cons f fs)
      with Cons.prems ParallelItem rs show ?thesis by auto
    qed
  qed
qed

text \<open>
  Claim C4.  Let the items \<open>pre\<close> all succeed.  If the next item is a step whose
  result has a non-zero exit code, or a parallel group one of whose results has a
  non-zero exit code, then whatever items \<open>post\<close> follow it: the pipeline result has
  \<^verbatim>\<open>success = false\<close>; its result list is the results of \<open>pre\<close> followed by the
  results of the failing item, and nothing else; and the steps started are exactly
  the steps of \<open>pre\<close> and of the failing item, in order, so no step of a later item
  is started.
\<close>

theorem sequential_short_circuit:
  assumes "executePipeline w dryRun pre = (r0, started0)" and "exec_success r0"
  shows "started0 = map stepLabel (concat (map itemSteps pre))
     \<and> (\<forall>step t res started1.
           executeStep w dryRun step started0 = (Fulfilled t res, started1) \<and> exitCode res \<noteq> 0 \<longrightarrow>
           executePipeline w dryRun (pre @ StepItem step # post)
             = (\<lparr>exec_success = False, exec_steps = exec_steps r0 @ [res],
                 exec_error = error res\<rparr>, started1)
           \<and> started1 = map stepLabel (concat (map itemSteps (pre @ [StepItem step]))))
     \<and> (\<forall>par t rs started1.
           executeParallelSteps w dryRun par started0 = (Fulfilled t rs, started1)
           \<and> (\<exists>r \<in> set rs. exitCode r \<noteq> 0) \<longrightarrow>
           fst (executePipeline w dryRun (pre @ ParallelItem par # post))
             = \<lparr>exec_success = False, exec_steps = exec_steps r0 @ rs,
                exec_error = error (hd (filter (\<lambda>r. \<not> success r) rs))\<rparr>
           \<and> snd (executePipeline w dryRun (pre @ ParallelItem par # post)) = started1
           \<and> started1 = map stepLabel (concat (map itemSteps (pre @ [ParallelItem par]))))"
proof (intro conjI allI impI)
  from assms have loop: "pipelineLoop w dryRun pre [] [] = (r0, started0)"
    by (simp add: executePipeline_def)
  from pipelineLoop_success_started[OF loop assms(2)]
  show s0: "started0 = map stepLabel (concat (map itemSteps pre))" by simp
  have app: "\<And>rest. executePipeline w dryRun (pre @ rest) = pipelineLoop w dryRun rest (exec_steps r0) started0"
    using pipelineLoop_append[OF loop assms(2)] by (simp add: executePipeline_def)
  {
    fix step t res started1
    assume a: "executeStep w dryRun step started0 = (Fulfilled t res, started1) \<and> exitCode res \<noteq> 0"
    obtain t' r' where r': "executeStep w dryRun step started0 = (Fulfilled t' r', started0 @ [stepLabel step])"
      "success r' = (exitCode r' = 0)"
      using executeStep_fulfilled by blast
    with a have eq: "r' = res" "started1 = started0 @ [stepLabel step]" "\<not> success res" by auto
    show "executePipeline w dryRun (pre @ StepItem step # post)
             = (\<lparr>exec_success = False, exec_steps = exec_steps r0 @ [res],
                 exec_error = error res\<rparr>, started1)"
      using a eq by (simp add: app)
    show "started1 = map stepLabel (concat (map itemSteps (pre @ [StepItem step])))"
      using eq(2) s0 by simp
  }
  {
    fix par t rs started1
    assume a: "executeParallelSteps w dryRun par started0 = (Fulfilled t rs, started1)
           \<and> (\<exists>r \<in> set rs. exitCode r \<noteq> 0)"
    obtain t' rs' where rs': "executeParallelSteps w dryRun par started0
        = (Fulfilled t' rs', started0 @ map stepLabel (steps par))"
      "\<forall>r \<in> set rs'. success r = (exitCode r = 0)"
      using executeParallelSteps_fulfilled by blast
    with a have eq: "rs' = rs" "started1 = started0 @ map stepLabel (steps par)" by auto
    from a rs'(2) eq(1) have "\<exists>r \<in> set rs. \<not> success r" by auto
    then have "filter (\<lambda>r. \<not> success r) rs \<noteq> []" by (simp add: filter_empty_conv)
    then obtain f fs where f: "filter (\<lambda>r. \<not> success r) rs = f # fs"
      by (cases "filter (\<lambda>r. \<not> success r) rs") auto
    show "fst (executePipeline w dryRun (pre @ ParallelItem par # post))
             = \<lparr>exec_success = False, exec_steps = exec_steps r0 @ rs,
                exec_error = error (hd (filter (\<lambda>r. \<not> success r) rs))\<rparr>"
      using a f by (simp add: app)
    show "snd (executePipeline w dryRun (pre @ ParallelItem par # post)) = started1"
      using a f by (simp add: app)
    show "started1 = map stepLabel (concat (map itemSteps (pre @ [ParallelItem par])))"
      using eq(2) s0 by simp
  }
qed

lemma groupS3_run:
  "executeParallelSteps scriptWorld False groupS3 started =
     (Fulfilled 5000
        [\<lparr>name = ''sleeper'', success = True, exitCode = 0, duration = 5000, logs = [], error = None\<rparr>,
         \<lparr>name = ''failing'', success = False, exitCode = 1, duration = 100, logs = [], error = None\<rparr>],
      started @ [''sleeper'', ''failing''])"
  by (simp add: executeParallelSteps_def groupS3_def namedStep_def executeStep_def scriptWorld_def
      orElse_def okResult_def failResult_def promiseAll_def promiseAllSettled_def lastSettle_def Let_def)

text \<open>
  Claim C1 at the failing input, scenario S3.  The group returns at 5000 ms, when the
  sleeping child has finished on its own, and that child contributes its own
  result with \<^verbatim>\<open>exitCode = 0\<close> and \<^verbatim>\<open>success = true\<close>: it was running when the other
  child failed at 100 ms and was not cancelled.  With \<^verbatim>\<open>failFast = false\<close> the same
  group gives the same result at the same time.
\<close>

theorem failFast_group_waits_for_all:
  "executeParallelSteps scriptWorld False groupS3 [] =
     (Fulfilled 5000
        [\<lparr>name = ''sleeper'', success = True, exitCode = 0, duration = 5000, logs = [], error = None\<rparr>,
         \<lparr>name = ''failing'', success = False, exitCode = 1, duration = 100, logs = [], error = None\<rparr>],
      [''sleeper'', ''failing''])
   \<and> executeParallelSteps scriptWorld False (groupS3\<lparr>failFast := Some False\<rparr>) []
      = executeParallelSteps scriptWorld False groupS3 []"
proof -
  have "groupS3\<lparr>failFast := Some True\<rparr> = groupS3" by (simp add: groupS3_def)
  with failFast_no_effect[of scriptWorld False groupS3 "[]" "Some False"] groupS3_run[of "[]"]
  show ?thesis by simp
qed

text \<open>Witness for C4: scenario S2, and a pipeline whose second item is a failing
  parallel group.\<close>

theorem sequential_short_circuit_witness:
  "executePipeline scriptWorld False pipelineS2
     = (\<lparr>exec_success = False,
         exec_steps = [\<lparr>name = ''first'', success = False, exitCode = 1, duration = 100,
                         logs = [], error = None\<rparr>],
         exec_error = None\<rparr>, [''first''])
   \<and> fst (executePipeline scriptWorld False
            [StepItem (namedStep ''setup'' ''echo hello''), ParallelItem groupS3,
             StepItem (namedStep ''after'' ''echo never'')])
     = \<lparr>exec_success = False,
        exec_steps =
          [\<lparr>name = ''setup'', success = True, exitCode = 0, duration = 10, logs = [], error = None\<rparr>,
           \<lparr>name = ''sleeper'', success = True, exitCode = 0, duration = 5000, logs = [], error = None\<rparr>,
           \<lparr>name = ''failing'', success = False, exitCode = 1, duration = 100, logs = [], error = None\<rparr>],
        exec_error = None\<rparr>
   \<and> snd (executePipeline scriptWorld False
            [StepItem (namedStep ''setup'' ''echo hello''), ParallelItem groupS3,
             StepItem (namedStep ''after'' ''echo never'')])
     = [''setup'', ''sleeper'', ''failing'']"
proof -
  let ?first = "namedStep ''first'' ''false''"
  let ?res = "\<lparr>name = ''first'', success = False, exitCode = 1, duration = 100,
                logs = [], error = None\<rparr>"
  have e0: "executePipeline scriptWorld False [] = (\<lparr>exec_success = True, exec_steps = [], exec_error = None\<rparr>, [])"
    by (simp add: executePipeline_def)
  have s1: "executeStep scriptWorld False ?first [] = (Fulfilled 100 ?res, [''first'']) \<and> exitCode ?res \<noteq> 0"
    by (simp add: executeStep_def namedStep_def scriptWorld_def orElse_def failResult_def Let_def)
  have p1: "executePipeline scriptWorld False ([] @ StepItem ?first # [StepItem (namedStep ''second'' ''echo never'')])
      = (\<lparr>exec_success = False, exec_steps = [] @ [?res], exec_error = error ?res\<rparr>, [''first''])"
    using sequential_short_circuit[OF e0, of "[StepItem (namedStep ''second'' ''echo never'')]",
        THEN conjunct2, THEN conjunct1, rule_format, OF _ s1]
    by simp
  let ?prep = "namedStep ''setup'' ''echo hello''"
  let ?sres = "\<lparr>name = ''setup'', success = True, exitCode = 0, duration = 10, logs = [], error = None\<rparr>"
  have e1: "executePipeline scriptWorld False [StepItem ?prep]
     = (\<lparr>exec_success = True, exec_steps = [?sres], exec_error = None\<rparr>, [''setup''])"
    by (simp add: executePipeline_def executeStep_def namedStep_def scriptWorld_def orElse_def
        okResult_def Let_def)
  let ?rs = "[\<lparr>name = ''sleeper'', success = True, exitCode = 0, duration = 5000, logs = [], error = None\<rparr>,
         \<lparr>name = ''failing'', success = False, exitCode = 1, duration = 100, logs = [], error = None\<rparr>]"
  have s2: "executeParallelSteps scriptWorld False groupS3 [''setup'']
      = (Fulfilled 5000 ?rs, [''setup'', ''sleeper'', ''failing'']) \<and> (\<exists>r \<in> set ?rs. exitCode r \<noteq> 0)"
    by (simp add: groupS3_run)
  have p2: "fst (executePipeline scriptWorld False ([StepItem ?prep] @ ParallelItem groupS3 # [StepItem (namedStep ''after'' ''echo never'')]))
             = \<lparr>exec_success = False, exec_steps = [?sres] @ ?rs,
                exec_error = error (hd (filter (\<lambda>r. \<not> success r) ?rs))\<rparr>
           \<and> snd (executePipeline scriptWorld False ([StepItem ?prep] @ ParallelItem groupS3 # [StepItem (namedStep ''after'' ''echo never'')]))
             = [''setup'', ''sleeper'', ''failing'']"
    using sequential_short_circuit[OF e1, of "[StepItem (namedStep ''after'' ''echo never'')]",
        THEN conjunct2, THEN conjunct2, rule_format, OF _ s2]
    by simp
  from p1 p2 show ?thesis by (simp add: pipelineS2_def)
qed

section \<open>Properties of the cache manager\<close>

lemma paths_differ: "getCachePath cachePath cacheName \<noteq> tempCacheFilePath cachePath cacheName"
  by (simp add: tempCacheFilePath_def)

lemma inv_initial:
  "cacheInvariant final tmp files0 saves (initialCacheState files0 saves)"
  by (simp add: cacheInvariant_def initialCacheState_def)

lemma pending_archive:
  "set (pendingSaves s) \<subseteq> set saves \<Longrightarrow> pendingSaves s = (True, a) # rest \<Longrightarrow>
   a \<in> set (savedArchives saves)"
  by (force simp: savedArchives_def)

lemma inv_saverStep:
  assumes "final \<noteq> tmp" and "cacheInvariant final tmp files0 saves s"
  shows "cacheInvariant final tmp files0 saves (saverStep final tmp n s)"
proof (cases "saver s")
  case SaveIdle
  show ?thesis
  proof (cases "pendingSaves s")
    case Nil
    with SaveIdle assms(2) show ?thesis by (simp add: saverStep_def)
  next
    case (Cons p rest)
    obtain ex a where p: "p = (ex, a)" by (cases p)
    from assms(2) have sub: "set (pendingSaves s) \<subseteq> set saves" by (simp add: cacheInvariant_def)
    show ?thesis
    proof (cases ex)
      case True
      with pending_archive[OF sub] Cons p have "a \<in> set (savedArchives saves)" by simp
      with SaveIdle Cons p True assms(2) show ?thesis
        by (auto simp: saverStep_def cacheInvariant_def split: restorePosition.splits)
    next
      case False
      with SaveIdle Cons p assms(2) show ?thesis
        by (auto simp: saverStep_def cacheInvariant_def split: restorePosition.splits)
    qed
  qed
next
  case (SaveAccessed a)
  with assms(2) show ?thesis by (auto simp: saverStep_def cacheInvariant_def split: restorePosition.splits)
next
  case (SaveDirReady a)
  with assms show ?thesis by (auto simp: saverStep_def cacheInvariant_def split: restorePosition.splits)
next
  case (SaveWriting a)
  with assms show ?thesis
    by (cases "files s tmp") (auto simp: saverStep_def cacheInvariant_def split: restorePosition.splits)
next
  case (SaveWritten a)
  with assms(2) have t: "files s tmp = Some a" "a \<in> set (savedArchives saves)"
    by (simp_all add: cacheInvariant_def)
  with SaveWritten assms show ?thesis
    by (auto simp: saverStep_def cacheInvariant_def split: restorePosition.splits)
next
  case SaveRenamed
  with assms(2) show ?thesis by (auto simp: saverStep_def cacheInvariant_def split: restorePosition.splits)
qed

lemma inv_saverThrow:
  "cacheInvariant final tmp files0 saves s \<Longrightarrow> cacheInvariant final tmp files0 saves (saverThrow s)"
  by (cases "saver s") (auto simp: saverThrow_def cacheInvariant_def split: restorePosition.splits)

lemma inv_restorerStep:
  assumes "cacheInvariant final tmp files0 saves s"
  shows "cacheInvariant final tmp files0 saves (restorerStep final s)"
proof (cases "restorer s")
  case RestoreIdle
  with assms show ?thesis
    by (cases "files s final") (auto simp: restorerStep_def cacheInvariant_def split: savePosition.splits)
next
  case RestoreAccessed
  with assms show ?thesis by (auto simp: restorerStep_def cacheInvariant_def split: savePosition.splits)
next
  case RestoreDirReady
  with assms show ?thesis
    by (cases "files s final") (auto simp: restorerStep_def cacheInvariant_def split: savePosition.splits)
next
  case (RestoreExtracted b)
  with assms show ?thesis by (auto simp: restorerStep_def cacheInvariant_def split: savePosition.splits)
next
  case (RestoreReturned ok ex)
  with assms show ?thesis by (simp add: restorerStep_def)
qed

lemma inv_restorerThrow:
  "cacheInvariant final tmp files0 saves s \<Longrightarrow> cacheInvariant final tmp files0 saves (restorerThrow s)"
  by (cases "restorer s") (auto simp: restorerThrow_def cacheInvariant_def split: savePosition.splits)

lemma inv_cacheStep:
  assumes "cacheInvariant (getCachePath cachePath cacheName) (tempCacheFilePath cachePath cacheName)
             files0 saves s"
  shows "cacheInvariant (getCachePath cachePath cacheName) (tempCacheFilePath cachePath cacheName)
             files0 saves (cacheStep cachePath cacheName s e)"
  using assms inv_saverStep[OF paths_differ] inv_saverThrow inv_restorerStep inv_restorerThrow
  by (cases e) (simp_all add: cacheStep_def)

lemma inv_foldl:
  assumes "cacheInvariant (getCachePath cachePath cacheName) (tempCacheFilePath cachePath cacheName)
             files0 saves s"
  shows "cacheInvariant (getCachePath cachePath cacheName) (tempCacheFilePath cachePath cacheName)
             files0 saves (foldl (cacheStep cachePath cacheName) s events)"
  using assms by (induction events arbitrary: s) (simp_all add: inv_cacheStep)

lemma inv_cacheRun:
  "cacheInvariant (getCachePath cachePath cacheName) (tempCacheFilePath cachePath cacheName)
     files0 saves (cacheRun cachePath cacheName files0 saves events)"
  unfolding cacheRun_def by (rule inv_foldl) (rule inv_initial)

text \<open>
  Claim C3.  For every sequence of saves of a cache name, every interleaving of
  their steps with the steps of a restore of that name, and every point at which a
  call throws: the only file \<^verbatim>\<open>saveCache\<close> writes piecewise is the temporary file,
  and what a rename moves to the cache file is the whole archive of one of the
  saves; so the cache file holds, at every moment, what it held at the start or the
  whole archive of a save that has been renamed; and a restore that has returned
  either returned false, or returned true having extracted what the cache file held
  at the start or the whole archive of a save renamed before the extraction.
\<close>

theorem cache_restore_never_partial:
  "(let s = cacheRun cachePath cacheName files0 saves events;
        cacheFilePath = getCachePath cachePath cacheName
    in set (published s) \<subseteq> set (savedArchives saves)
       \<and> (files s cacheFilePath = files0 cacheFilePath
            \<or> (\<exists>a \<in> set (published s). files s cacheFilePath = Some a))
       \<and> (\<forall>ok extracted. restorer s = RestoreReturned ok extracted \<longrightarrow>
             (\<not> ok \<and> extracted = None)
             \<or> (ok \<and> (\<exists>b. extracted = Some b
                        \<and> (Some b = files0 cacheFilePath \<or> b \<in> set (published s))))))"
  using inv_cacheRun[of cachePath cacheName files0 saves events]
  by (auto simp: cacheInvariant_def Let_def)

lemma example_run:
  "files (cacheRun ''/c'' ''node'' (\<lambda>p. None) exampleSaves exampleEvents) ''/c/node.tar.gz.tmp'' = Some [5, 6]
   \<and> files (cacheRun ''/c'' ''node'' (\<lambda>p. None) exampleSaves exampleEvents) ''/c/node.tar.gz'' = Some [1, 2, 3, 4]
   \<and> restorer (cacheRun ''/c'' ''node'' (\<lambda>p. None) exampleSaves exampleEvents)
        = RestoreReturned True (Some [1, 2, 3, 4])"
  by code_simp

lemma miss_run:
  "files (cacheRun ''/c'' ''node'' (\<lambda>p. None) exampleSaves missEvents) ''/c/node.tar.gz.tmp'' = Some [1, 2]
   \<and> restorer (cacheRun ''/c'' ''node'' (\<lambda>p. None) exampleSaves missEvents)
        = RestoreReturned False None"
  by code_simp

text \<open>Witness for C3: the restore extracts the first archive while the temporary
  file holds two of the three bytes of the second; and a restore of a cache that was
  never saved returns false while the temporary file is being written.\<close>

theorem cache_restore_never_partial_witness:
  "restorer (cacheRun ''/c'' ''node'' (\<lambda>p. None) exampleSaves exampleEvents)
        = RestoreReturned True (Some [1, 2, 3, 4])
   \<and> [1, 2, 3, 4] \<in> set (published (cacheRun ''/c'' ''node'' (\<lambda>p. None) exampleSaves exampleEvents))
   \<and> [1, 2, 3, 4] \<in> set (savedArchives exampleSaves)
   \<and> files (cacheRun ''/c'' ''node'' (\<lambda>p. None) exampleSaves exampleEvents) ''/c/node.tar.gz.tmp'' = Some [5, 6]
   \<and> restorer (cacheRun ''/c'' ''node'' (\<lambda>p. None) exampleSaves missEvents)
        = RestoreReturned False None"
proof -
  let ?s = "cacheRun ''/c'' ''node'' (\<lambda>p. None) exampleSaves exampleEvents"
  from cache_restore_never_partial[of "''/c''" "''node''" "\<lambda>p. None" exampleSaves exampleEvents]
  have sub: "set (published ?s) \<subseteq> set (savedArchives exampleSaves)"
    and ret: "\<And>ok extracted. restorer ?s = RestoreReturned ok extracted \<Longrightarrow>
             (\<not> ok \<and> extracted = None)
             \<or> (ok \<and> (\<exists>b. extracted = Some b \<and> (Some b = None \<or> b \<in> set (published ?s))))"
    by (simp_all add: Let_def)
  have r: "restorer ?s = RestoreReturned True (Some [1, 2, 3, 4])" using example_run by simp
  from ret[OF r] have p: "[1, 2, 3, 4] \<in> set (published ?s)" by simp
  with sub have "[1, 2, 3, 4] \<in> set (savedArchives exampleSaves)" by blast
  with p r example_run miss_run show ?thesis by simp
qed

section \<open>Properties of \<^verbatim>\<open>sanitizeStepName\<close>\<close>

lemma collapse_hd: "collapseUnderscores (d # cs) \<noteq> [] \<and> hd (collapseUnderscores (d # cs)) = d"
  by (induction cs arbitrary: d) auto

lemma collapse_noDouble: "noDoubleUnderscore (collapseUnderscores s)"
  by (induction s rule: collapseUnderscores.induct) (auto simp: successively_Cons collapse_hd)

lemma collapse_id: "noDoubleUnderscore s \<Longrightarrow> collapseUnderscores s = s"
  by (induction s rule: collapseUnderscores.induct) auto

lemma collapse_set: "set (collapseUnderscores s) = set s"
  by (induction s rule: collapseUnderscores.induct) auto

lemma dropTrailing_prefix: "\<exists>ys. s = dropTrailingUnderscores s @ ys \<and> set ys \<subseteq> {CHR ''_''}"
proof (induction s)
  case Nil show ?case by simp
next
  case (Cons c cs)
  then obtain ys where ys: "cs = dropTrailingUnderscores cs @ ys" "set ys \<subseteq> {CHR ''_''}" by blast
  show ?case
  proof (cases "dropTrailingUnderscores cs = [] \<and> c = CHR ''_''")
    case True
    with ys have "c # cs = [] @ (CHR ''_'' # ys)" "set (CHR ''_'' # ys) \<subseteq> {CHR ''_''}" by auto
    with True show ?thesis by (simp add: Let_def)
  next
    case False
    with ys show ?thesis by (auto simp: Let_def)
  qed
qed

lemma dropTrailing_last: "dropTrailingUnderscores s \<noteq> [] \<Longrightarrow> last (dropTrailingUnderscores s) \<noteq> CHR ''_''"
  by (induction s) (auto simp: Let_def split: if_splits)

lemma dropTrailing_id: "s \<noteq> [] \<Longrightarrow> last s \<noteq> CHR ''_'' \<Longrightarrow> dropTrailingUnderscores s = s"
  by (induction s) (auto simp: Let_def split: if_splits)

lemma dropTrailing_hd: "dropTrailingUnderscores s \<noteq> [] \<Longrightarrow> hd (dropTrailingUnderscores s) = hd s"
  by (cases s) (auto simp: Let_def split: if_splits)


lemma noDouble_prefix: "noDoubleUnderscore (xs @ ys) \<Longrightarrow> noDoubleUnderscore xs"
  by (simp add: successively_append_iff)

lemma noDouble_suffix: "noDoubleUnderscore (xs @ ys) \<Longrightarrow> noDoubleUnderscore ys"
  by (simp add: successively_append_iff)

lemma trim_noDouble: assumes "noDoubleUnderscore s" shows "noDoubleUnderscore (trimUnderscores s)"
proof -
  let ?d = "dropWhile (\<lambda>c. c = CHR ''_'') s"
  have "s = takeWhile (\<lambda>c. c = CHR ''_'') s @ ?d" by simp
  with assms have d: "noDoubleUnderscore ?d" using noDouble_suffix by metis
  obtain ys where "?d = dropTrailingUnderscores ?d @ ys" using dropTrailing_prefix by blast
  with d show ?thesis unfolding trimUnderscores_def using noDouble_prefix by metis
qed

lemma trim_ends: "trimUnderscores s \<noteq> [] \<Longrightarrow>
   hd (trimUnderscores s) \<noteq> CHR ''_'' \<and> last (trimUnderscores s) \<noteq> CHR ''_''"
  unfolding trimUnderscores_def
proof -
  let ?d = "dropWhile (\<lambda>c. c = CHR ''_'') s"
  assume ne: "dropTrailingUnderscores ?d \<noteq> []"
  have "?d \<noteq> []"
  proof
    assume "?d = []"
    then have "dropTrailingUnderscores ?d = []" by (simp only: dropTrailingUnderscores.simps)
    with ne show False by blast
  qed
  then have "hd ?d \<noteq> CHR ''_''" by (rule hd_dropWhile)
  moreover have "hd (dropTrailingUnderscores ?d) = hd ?d" using ne by (rule dropTrailing_hd)
  moreover have "last (dropTrailingUnderscores ?d) \<noteq> CHR ''_''" using ne by (rule dropTrailing_last)
  ultimately show "hd (dropTrailingUnderscores ?d) \<noteq> CHR ''_'' \<and> last (dropTrailingUnderscores ?d) \<noteq> CHR ''_''"
    by simp
qed

lemma trim_id: "s = [] \<or> (hd s \<noteq> CHR ''_'' \<and> last s \<noteq> CHR ''_'') \<Longrightarrow> trimUnderscores s = s"
proof (cases s)
  case Nil
  then show ?thesis by (simp add: trimUnderscores_def)
next
  case (Cons a list)
  assume "s = [] \<or> (hd s \<noteq> CHR ''_'' \<and> last s \<noteq> CHR ''_'')"
  with Cons have h: "a \<noteq> CHR ''_''" "last s \<noteq> CHR ''_''" "s \<noteq> []" by auto
  from h(1) Cons have "dropWhile (\<lambda>c. c = CHR ''_'') s = s" by simp
  then show ?thesis unfolding trimUnderscores_def using dropTrailing_id[OF h(3) h(2)] by simp
qed

lemma trim_set: "set (trimUnderscores s) \<subseteq> set s"
proof -
  let ?d = "dropWhile (\<lambda>c. c = CHR ''_'') s"
  obtain ys where "?d = dropTrailingUnderscores ?d @ ys" using dropTrailing_prefix by blast
  then have "set (dropTrailingUnderscores ?d) \<subseteq> set ?d" by (metis set_append Un_upper1)
  moreover have "set ?d \<subseteq> set s" by (simp add: set_dropWhileD subsetI)
  ultimately show ?thesis unfolding trimUnderscores_def by blast
qed


lemma toLowerChar_U: "toLowerChar c = CHR ''_'' \<longleftrightarrow> c = CHR ''_''"
proof -
  have "of_char (toLowerChar c) = (95::nat) \<longleftrightarrow> of_char c = (95::nat)"
    by (simp add: toLowerChar_def Let_def)
  moreover have "of_char (CHR ''_'') = (95::nat)" by simp
  ultimately show ?thesis using of_char_eq_iff[of "toLowerChar c" "CHR ''_''", where ?'a=nat] of_char_eq_iff[of c "CHR ''_''", where ?'a=nat] by simp
qed

lemma toLowerChar_sanitized: "isAllowedChar c \<Longrightarrow> isSanitizedChar (toLowerChar c)"
  by (auto simp: isAllowedChar_def isSanitizedChar_def toLowerChar_def Let_def)

lemma toLowerChar_id: "isSanitizedChar c \<Longrightarrow> toLowerChar c = c"
  by (auto simp: isSanitizedChar_def toLowerChar_def Let_def)

lemma sanitized_allowed: "isSanitizedChar c \<Longrightarrow> isAllowedChar c"
  by (auto simp: isSanitizedChar_def isAllowedChar_def Let_def)

lemma replace_allowed: "list_all isAllowedChar (replaceDisallowed s)"
  by (induction s) (simp_all add: replaceDisallowed_def isAllowedChar_def)

lemma replace_id: "list_all isAllowedChar s \<Longrightarrow> replaceDisallowed s = s"
  by (induction s) (simp_all add: replaceDisallowed_def)

lemma pre_allowed: "list_all isAllowedChar (trimUnderscores (collapseUnderscores (replaceDisallowed s)))"
proof -
  have "set (trimUnderscores (collapseUnderscores (replaceDisallowed s))) \<subseteq> set (replaceDisallowed s)"
    using trim_set[of "collapseUnderscores (replaceDisallowed s)"] by (simp add: collapse_set)
  with replace_allowed[of s] show ?thesis by (auto simp: list_all_iff)
qed

lemma sanitize_chars: "list_all isSanitizedChar (sanitizeStepName s)"
  using pre_allowed[of s]
  by (auto simp: sanitizeStepName_def toLowerCase_def list_all_iff toLowerChar_sanitized)

lemma sanitize_noDouble: "successively (\<lambda>a b. \<not> (a = CHR ''_'' \<and> b = CHR ''_'')) (sanitizeStepName s)"
proof -
  have "successively (\<lambda>a b. \<not> (a = CHR ''_'' \<and> b = CHR ''_''))
          (trimUnderscores (collapseUnderscores (replaceDisallowed s)))"
    by (rule trim_noDouble) (rule collapse_noDouble)
  then show ?thesis
    by (simp add: sanitizeStepName_def toLowerCase_def successively_map toLowerChar_U)
qed

lemma sanitize_ends: "sanitizeStepName s = [] \<or>
   (hd (sanitizeStepName s) \<noteq> CHR ''_'' \<and> last (sanitizeStepName s) \<noteq> CHR ''_'')"
proof (cases "trimUnderscores (collapseUnderscores (replaceDisallowed s)) = []")
  case True
  then show ?thesis by (simp add: sanitizeStepName_def toLowerCase_def)
next
  case False
  from trim_ends[OF False] False show ?thesis
    by (simp add: sanitizeStepName_def toLowerCase_def hd_map last_map toLowerChar_U)
qed

lemma sanitize_fixed:
  assumes "list_all isSanitizedChar t"
    and "successively (\<lambda>a b. \<not> (a = CHR ''_'' \<and> b = CHR ''_'')) t"
    and "t = [] \<or> (hd t \<noteq> CHR ''_'' \<and> last t \<noteq> CHR ''_'')"
  shows "sanitizeStepName t = t"
proof -
  from assms(1) have "list_all isAllowedChar t" by (auto simp: list_all_iff sanitized_allowed)
  then have 1: "replaceDisallowed t = t" by (rule replace_id)
  from assms(2) have 2: "collapseUnderscores t = t" by (rule collapse_id)
  from assms(3) have 3: "trimUnderscores t = t" by (rule trim_id)
  from assms(1) have 4: "toLowerCase t = t"
    by (induction t) (simp_all add: toLowerCase_def toLowerChar_id)
  show ?thesis by (simp add: sanitizeStepName_def 1 2 3 4)
qed

lemma dropTrailing_empty: "(dropTrailingUnderscores s = []) = list_all (\<lambda>c. c = CHR ''_'') s"
  by (induction s) (auto simp: Let_def)

lemma trim_empty: "(trimUnderscores s = []) = list_all (\<lambda>c. c = CHR ''_'') s"
proof -
  have "list_all (\<lambda>c. c = CHR ''_'') (dropWhile (\<lambda>c. c = CHR ''_'') s) = list_all (\<lambda>c. c = CHR ''_'') s"
    by (induction s) auto
  then show ?thesis by (simp add: trimUnderscores_def dropTrailing_empty)
qed

lemma sanitize_empty: "(sanitizeStepName s = []) = list_all (\<lambda>c. \<not> isNameChar c) s"
proof -
  have "(sanitizeStepName s = []) = list_all (\<lambda>c. c = CHR ''_'') (collapseUnderscores (replaceDisallowed s))"
    by (simp add: sanitizeStepName_def toLowerCase_def trim_empty)
  also have "\<dots> = list_all (\<lambda>c. c = CHR ''_'') (replaceDisallowed s)"
    by (simp add: list_all_iff collapse_set)
  also have "\<dots> = list_all (\<lambda>c. \<not> isNameChar c) s"
    by (induction s) (auto simp: replaceDisallowed_def isNameChar_def)
  finally show ?thesis .
qed

text \<open>
  Claim C9, as the code has it: \<^verbatim>\<open>sanitizeStepName\<close> is idempotent, every character of
  its output is in \<^verbatim>\<open>[a-z0-9_-]\<close>, and the output is empty exactly when the input has
  no character of \<^verbatim>\<open>[A-Za-z0-9-]\<close> (so the output matches \<^verbatim>\<open>[a-z0-9_-]*\<close>, and
  \<^verbatim>\<open>[a-z0-9_-]+\<close> whenever the input has such a character).
\<close>

theorem sanitizeStepName_idempotent_charset:
  "sanitizeStepName (sanitizeStepName s) = sanitizeStepName s
   \<and> list_all isSanitizedChar (sanitizeStepName s)
   \<and> (sanitizeStepName s = []) = list_all (\<lambda>c. \<not> isNameChar c) s"
  using sanitize_fixed[OF sanitize_chars sanitize_noDouble sanitize_ends] sanitize_chars sanitize_empty
  by blast

text \<open>
  The claim C9 as stated fails on the empty step name: the output is empty, and the
  empty string does not match \<^verbatim>\<open>[a-z0-9_-]+\<close>.
\<close>

theorem sanitizeStepName_empty_counterexample:
  "sanitizeStepName '''' = '''' \<and> \<not> matchesSanitizedPlus (sanitizeStepName '''')"
  by (simp add: sanitizeStepName_def toLowerCase_def trimUnderscores_def replaceDisallowed_def
      matchesSanitizedPlus_def)


end
